theory Spec2Isabelle
  imports Main "HOL-Library.Word" "HOL-Library.Sublist"
begin

section \<open>MSDScript: expressions, printers, evaluator and parser\<close>

text \<open>
  A shallow embedding of \<^verbatim>\<open>Expr.cpp\<close> and \<^verbatim>\<open>parse.cpp\<close>. Every C++ class of the
  expression hierarchy is a constructor of \<open>expr\<close>, every virtual method is a function
  by cases on the constructor, an exception is the left summand of a sum type and an
  input stream is the list of the characters not yet read.
\<close>

subsection \<open>Data\<close>

text \<open>
  The C++ type \<^verbatim>\<open>int\<close>: 32 bits, two's complement. Signed overflow, which C++ leaves
  undefined, is the wrap-around of the machine here; the statements about literals
  below say where the arithmetic of \<^verbatim>\<open>parse_num\<close> stays in range.
\<close>

type_synonym cint = "32 word"

datatype expr =
    NumExpr cint
  | BoolExpr bool
  | VarExpr string
  | AddExpr expr expr
  | MultExpr expr expr
  | EqExpr expr expr
  | IfExpr expr expr expr
  | LetExpr string expr expr
  | FunExpr string expr
  | CallExpr expr expr

text \<open>
  Modelled from the spec: the classes of \<^verbatim>\<open>Val.hpp\<close> and \<^verbatim>\<open>env.hpp\<close>, whose files
  are not part of the sources at hand. Values are numbers, booleans and closures; an
  environment is empty or extends a parent by one binding.
\<close>

datatype val =
    NumVal cint
  | BoolVal bool
  | FunVal string expr env
and env =
    EmptyEnv
  | ExtendedEnv string val env

text \<open>
  Every exception of the sources is a \<^verbatim>\<open>std::runtime_error\<close>. The parser's carry their
  message. The evaluator's are raised by the value and environment classes; the
  dereference of a null environment pointer is kept apart as an outcome of its own.
\<close>

datatype parse_error = ParseError string

datatype interp_error = UnboundVariableError | TypeError | NullEnvDereference

text \<open>
  Modelled from the spec: the enumeration \<^verbatim>\<open>precedence_t\<close> of \<^verbatim>\<open>Expr.hpp\<close>, with the
  levels none, add and mult from lowest to highest; \<open>prec_rank\<close> is the integer value
  that the comparisons \<^verbatim>\<open>prec >= prec_add\<close> of the printers read.
\<close>

datatype precedence_t = prec_none | prec_add | prec_mult

fun prec_rank :: "precedence_t \<Rightarrow> nat" where
  "prec_rank prec_none = 0"
| "prec_rank prec_add = 1"
| "prec_rank prec_mult = 2"

subsection \<open>Canonical printing\<close>

text \<open>
  \<^verbatim>\<open>std::to_string(int)\<close>: the decimal digits of the magnitude, after a minus sign for
  a negative number.
\<close>

function digits_of_nat :: "nat \<Rightarrow> string" where
  "digits_of_nat n =
     (if n < 10 then [char_of (48 + n)]
      else digits_of_nat (n div 10) @ [char_of (48 + n mod 10)])"
  by pat_completeness auto
termination
  by (relation "measure id") auto

declare digits_of_nat.simps [simp del]

definition std_to_string :: "cint \<Rightarrow> string" where
  "std_to_string v =
     (if sint v < 0 then CHR ''-'' # digits_of_nat (nat (- sint v))
      else digits_of_nat (nat (sint v)))"

text \<open>
  \<^verbatim>\<open>print(ostream)\<close>: the second argument is what the stream holds already, the result
  what it holds afterwards. \<^verbatim>\<open>LetExpr\<close>, \<^verbatim>\<open>FunExpr\<close> and \<^verbatim>\<open>CallExpr\<close> render their
  children with \<^verbatim>\<open>to_string()\<close>, that is into a fresh stream, and write the text.
\<close>

fun print :: "expr \<Rightarrow> string \<Rightarrow> string" where
  "print (NumExpr val) ostream = ostream @ std_to_string val"
| "print (BoolExpr val) ostream =
     (if val then ostream @ ''_true''
      else if \<not> val then ostream @ ''_false'' else ostream)"
| "print (VarExpr val) ostream = ostream @ val"
| "print (AddExpr lhs rhs) ostream =
     print rhs (print lhs (ostream @ ''('') @ ''+'') @ '')''"
| "print (MultExpr lhs rhs) ostream =
     print rhs (print lhs (ostream @ ''('') @ ''*'') @ '')''"
| "print (EqExpr lhs rhs) ostream =
     print lhs (print rhs (ostream @ ''('') @ ''=='') @ '')''"
| "print (IfExpr if' then' else') ostream =
     print else' (print then' (print if' (ostream @ ''('' @ ''_if'') @ ''_then'') @ ''_else'')
       @ '')''"
| "print (LetExpr lhs rhs body) ostream =
     ostream @ ''(_let '' @ lhs @ ''='' @ print rhs [] @ '' _in '' @ print body [] @ '')''"
| "print (FunExpr formal_arg body) ostream =
     ostream @ ''_fun ('' @ formal_arg @ '') '' @ print body []"
| "print (CallExpr to_be_called actual_arg) ostream =
     ostream @ ''('' @ print to_be_called [] @ '') ('' @ print actual_arg [] @ '')''"

definition to_string :: "expr \<Rightarrow> string" where
  "to_string e = print e []"

text \<open>
  The text that \<open>print\<close> appends to the stream, as a function of the expression alone;
  \<open>print_rendering\<close> below shows that it is what \<open>print\<close> writes.
\<close>

fun rendering :: "expr \<Rightarrow> string" where
  "rendering (NumExpr val) = std_to_string val"
| "rendering (BoolExpr val) = (if val then ''_true'' else ''_false'')"
| "rendering (VarExpr val) = val"
| "rendering (AddExpr lhs rhs) = ''('' @ rendering lhs @ ''+'' @ rendering rhs @ '')''"
| "rendering (MultExpr lhs rhs) = ''('' @ rendering lhs @ ''*'' @ rendering rhs @ '')''"
| "rendering (EqExpr lhs rhs) = ''('' @ rendering rhs @ ''=='' @ rendering lhs @ '')''"
| "rendering (IfExpr c t f) =
     ''(_if'' @ rendering c @ ''_then'' @ rendering t @ ''_else'' @ rendering f @ '')''"
| "rendering (LetExpr lhs rhs body) =
     ''(_let '' @ lhs @ ''='' @ rendering rhs @ '' _in '' @ rendering body @ '')''"
| "rendering (FunExpr formal_arg body) = ''_fun ('' @ formal_arg @ '') '' @ rendering body"
| "rendering (CallExpr f a) = ''('' @ rendering f @ '') ('' @ rendering a @ '')''"

subsection \<open>Pretty printing\<close>

text \<open>
  \<^verbatim>\<open>pretty_print_at(ostream, prec, let_parent, strmpos)\<close>. The state is the pair of the
  stream's contents and of \<open>strmpos\<close>, which the C++ passes by reference;
  \<^verbatim>\<open>ostream.tellp()\<close> is the length of the contents. \<^verbatim>\<open>NumExpr\<close> and \<^verbatim>\<open>VarExpr\<close> do
  not override the method and inherit \<^verbatim>\<open>Expr::pretty_print_at\<close>, which calls
  \<open>print\<close>; the bodies of \<^verbatim>\<open>FunExpr::pretty_print_at\<close> and
  \<^verbatim>\<open>CallExpr::pretty_print_at\<close> are empty. The difference
  \<^verbatim>\<open>startPosition - strmpos\<close> is a difference of naturals here: \<open>strmpos\<close> is 0 or an
  earlier value of \<^verbatim>\<open>tellp()\<close> on every call that starts at \<open>pretty_print\<close>.
\<close>

fun pretty_print_at :: "expr \<Rightarrow> precedence_t \<Rightarrow> bool \<Rightarrow> string \<times> nat \<Rightarrow> string \<times> nat" where
  "pretty_print_at (NumExpr val) prec let_parent (ostream, strmpos) =
     (print (NumExpr val) ostream, strmpos)"
| "pretty_print_at (VarExpr val) prec let_parent (ostream, strmpos) =
     (print (VarExpr val) ostream, strmpos)"
| "pretty_print_at (AddExpr lhs rhs) prec let_parent (ostream, strmpos) =
     (let o1 = (if prec_rank prec \<ge> prec_rank prec_add then ostream @ ''('' else ostream);
          (o2, p2) = pretty_print_at lhs prec_add True (o1, strmpos);
          o3 = o2 @ '' + '';
          (o4, p4) = pretty_print_at rhs prec_none let_parent (o3, p2)
      in (if prec_rank prec \<ge> prec_rank prec_add then o4 @ '')'' else o4, p4))"
| "pretty_print_at (MultExpr lhs rhs) prec let_parent (ostream, strmpos) =
     (let parent = (if prec_rank prec \<ge> prec_rank prec_mult then False else let_parent);
          o1 = (if prec_rank prec \<ge> prec_rank prec_mult then ostream @ ''('' else ostream);
          (o2, p2) = pretty_print_at lhs prec_mult True (o1, strmpos);
          o3 = o2 @ '' * '';
          (o4, p4) = pretty_print_at rhs prec_add parent (o3, p2)
      in (if prec_rank prec \<ge> prec_rank prec_mult then o4 @ '')'' else o4, p4))"
| "pretty_print_at (LetExpr lhs rhs body) prec let_parent (ostream, strmpos) =
     (let o1 = (if let_parent then ostream @ ''('' else ostream);
          startPosition = length o1;
          depth = startPosition - strmpos;
          o2 = o1 @ ''_let '' @ lhs @ '' = '';
          (o3, p3) = pretty_print_at rhs prec_none False (o2, strmpos);
          o4 = o3 @ [CHR 0x0A];
          p4 = length o4;
          o5 = o4 @ replicate depth CHR '' '' @ ''_in  '';
          (o6, p6) = pretty_print_at body prec_none False (o5, p4)
      in (if let_parent then o6 @ '')'' else o6, p6))"
| "pretty_print_at (BoolExpr val) prec let_parent (ostream, strmpos) =
     (if val then (ostream @ ''_true'', strmpos)
      else if \<not> val then (ostream @ ''_false'', strmpos) else (ostream, strmpos))"
| "pretty_print_at (IfExpr if' then' else') prec let_parent (ostream, strmpos) =
     (let o1 = (if let_parent then ostream @ ''('' else ostream);
          o2 = o1 @ ''_if '';
          (o3, p3) = pretty_print_at if' prec_none False (o2, strmpos);
          o4 = o3 @ [CHR 0x0A];
          p4 = length o4;
          o5 = o4 @ ''_then '';
          (o6, p6) = pretty_print_at then' prec_none False (o5, p4);
          o7 = o6 @ [CHR 0x0A];
          o8 = o7 @ ''_else '';
          p8 = length o8;
          (o9, p9) = pretty_print_at else' prec_none False (o8, p8);
          o10 = (if let_parent then o9 @ '')'' else o9)
      in (o10 @ [CHR 0x0A], p9))"
| "pretty_print_at (EqExpr lhs rhs) prec let_parent (ostream, strmpos) =
     (let o1 = (if let_parent then ostream @ ''('' else ostream);
          (o2, p2) = pretty_print_at lhs prec_none False (o1, strmpos);
          o3 = o2 @ ''=='';
          (o4, p4) = pretty_print_at rhs prec_none False (o3, p2)
      in (if let_parent then o4 @ '')'' else o4, p4))"
| "pretty_print_at (FunExpr formal_arg body) prec let_parent (ostream, strmpos) =
     (ostream, strmpos)"
| "pretty_print_at (CallExpr to_be_called actual_arg) prec let_parent (ostream, strmpos) =
     (ostream, strmpos)"

definition pretty_print :: "expr \<Rightarrow> string \<Rightarrow> string" where
  "pretty_print e ostream = fst (pretty_print_at e prec_none False (ostream, 0))"

definition to_pretty_string :: "expr \<Rightarrow> string" where
  "to_pretty_string e = pretty_print e []"

subsection \<open>Evaluation\<close>

text \<open>
  Modelled from the spec: \<^verbatim>\<open>Env::lookup\<close> (\<^verbatim>\<open>env.cpp\<close> is not among the sources).
  Lookup walks from the innermost binding outwards and returns the first match; on the
  empty environment it fails with the unbound-variable error.
\<close>

fun lookup :: "env \<Rightarrow> string \<Rightarrow> interp_error + val" where
  "lookup EmptyEnv find_name = Inl UnboundVariableError"
| "lookup (ExtendedEnv name v rest) find_name =
     (if find_name = name then Inr v else lookup rest find_name)"

text \<open>
  Modelled from the spec: the methods \<^verbatim>\<open>add_to\<close>, \<^verbatim>\<open>mult_with\<close>, \<^verbatim>\<open>equals\<close> and
  \<^verbatim>\<open>is_true\<close> of the value classes (\<^verbatim>\<open>Val.cpp\<close> is not among the sources). Arithmetic
  is defined on two numbers and is a type error otherwise; equality is structural and
  never holds across variants. The spec leaves the rule for two closures open: the
  parameter and the body are compared here, and nothing below depends on it.
\<close>

fun add_to :: "val \<Rightarrow> val \<Rightarrow> interp_error + val" where
  "add_to (NumVal a) (NumVal b) = Inr (NumVal (a + b))"
| "add_to _ _ = Inl TypeError"

fun mult_with :: "val \<Rightarrow> val \<Rightarrow> interp_error + val" where
  "mult_with (NumVal a) (NumVal b) = Inr (NumVal (a * b))"
| "mult_with _ _ = Inl TypeError"

fun val_equals :: "val \<Rightarrow> val \<Rightarrow> bool" where
  "val_equals (NumVal a) (NumVal b) = (a = b)"
| "val_equals (BoolVal a) (BoolVal b) = (a = b)"
| "val_equals (FunVal p b e) (FunVal p' b' e') = (p = p' \<and> b = b')"
| "val_equals _ _ = False"

fun is_true :: "bool \<Rightarrow> bool" where
  "is_true b = b"

text \<open>
  The guard \<^verbatim>\<open>if(env == nullptr) { env = Env::empty; }\<close> that opens the \<^verbatim>\<open>interp\<close>
  of every class but \<^verbatim>\<open>NumExpr\<close>, \<^verbatim>\<open>BoolExpr\<close> and \<^verbatim>\<open>VarExpr\<close>.
\<close>

definition start_env :: "env option \<Rightarrow> env" where
  "start_env env = (case env of None \<Rightarrow> EmptyEnv | Some en \<Rightarrow> en)"

text \<open>
  \<^verbatim>\<open>interp(env)\<close>. The argument is \<open>None\<close> for the null pointer, which is what a call
  without an environment passes. A program of this language need not terminate, so the
  result is an option and \<open>None\<close> is divergence. \<^verbatim>\<open>AddExpr\<close>, \<^verbatim>\<open>MultExpr\<close>, \<^verbatim>\<open>EqExpr\<close>
  and \<^verbatim>\<open>CallExpr\<close> evaluate the object of the method call before its argument (the
  order of C++17; no statement below depends on it).

  Modelled from the spec: \<^verbatim>\<open>Val::call\<close>, inlined in the \<^verbatim>\<open>CallExpr\<close> case. A closure
  evaluates its body under its captured environment extended with the parameter bound
  to the argument; calling any other value is a type error.
\<close>

partial_function (option) interp :: "expr \<Rightarrow> env option \<Rightarrow> (interp_error + val) option" where
  "interp e env =
     (case e of
        NumExpr val \<Rightarrow> Some (Inr (NumVal val))
      | BoolExpr val \<Rightarrow> Some (Inr (BoolVal val))
      | VarExpr val \<Rightarrow>
          (case env of
             None \<Rightarrow> Some (Inl NullEnvDereference)
           | Some en \<Rightarrow> Some (lookup en val))
      | AddExpr lhs rhs \<Rightarrow>
          (let en = start_env env in
           Option.bind (interp lhs (Some en)) (\<lambda>l.
             case l of
               Inl err \<Rightarrow> Some (Inl err)
             | Inr lv \<Rightarrow>
                 Option.bind (interp rhs (Some en)) (\<lambda>r.
                   case r of
                     Inl err \<Rightarrow> Some (Inl err)
                   | Inr rv \<Rightarrow> Some (add_to lv rv))))
      | MultExpr lhs rhs \<Rightarrow>
          (let en = start_env env in
           Option.bind (interp lhs (Some en)) (\<lambda>l.
             case l of
               Inl err \<Rightarrow> Some (Inl err)
             | Inr lv \<Rightarrow>
                 Option.bind (interp rhs (Some en)) (\<lambda>r.
                   case r of
                     Inl err \<Rightarrow> Some (Inl err)
                   | Inr rv \<Rightarrow> Some (mult_with lv rv))))
      | EqExpr lhs rhs \<Rightarrow>
          (let en = start_env env in
           Option.bind (interp rhs (Some en)) (\<lambda>r.
             case r of
               Inl err \<Rightarrow> Some (Inl err)
             | Inr rv \<Rightarrow>
                 Option.bind (interp lhs (Some en)) (\<lambda>l.
                   case l of
                     Inl err \<Rightarrow> Some (Inl err)
                   | Inr lv \<Rightarrow> Some (Inr (BoolVal (val_equals rv lv))))))
      | IfExpr if' then' else' \<Rightarrow>
          (let en = start_env env in
           Option.bind (interp if' (Some en)) (\<lambda>c.
             case c of
               Inl err \<Rightarrow> Some (Inl err)
             | Inr conditionValue \<Rightarrow>
                 (case conditionValue of
                    BoolVal b \<Rightarrow>
                      if is_true b then interp then' (Some en) else interp else' (Some en)
                  | _ \<Rightarrow> interp else' (Some en))))
      | LetExpr lhs rhs body \<Rightarrow>
          (let en = start_env env in
           Option.bind (interp rhs (Some en)) (\<lambda>r.
             case r of
               Inl err \<Rightarrow> Some (Inl err)
             | Inr rhsValue \<Rightarrow> interp body (Some (ExtendedEnv lhs rhsValue en))))
      | FunExpr formal_arg body \<Rightarrow>
          (let en = start_env env in
           Some (Inr (FunVal formal_arg body en)))
      | CallExpr to_be_called actual_arg \<Rightarrow>
          (let en = start_env env in
           Option.bind (interp to_be_called (Some en)) (\<lambda>f.
             case f of
               Inl err \<Rightarrow> Some (Inl err)
             | Inr fv \<Rightarrow>
                 Option.bind (interp actual_arg (Some en)) (\<lambda>a.
                   case a of
                     Inl err \<Rightarrow> Some (Inl err)
                   | Inr av \<Rightarrow>
                       (case fv of
                          FunVal formal_arg body cenv \<Rightarrow>
                            interp body (Some (ExtendedEnv formal_arg av cenv))
                        | _ \<Rightarrow> Some (Inl TypeError))))))"

declare interp.simps [code]

subsection \<open>The input stream\<close>

text \<open>
  An \<^verbatim>\<open>istream\<close> is the list of its unread characters. \<^verbatim>\<open>peek()\<close> and \<^verbatim>\<open>get()\<close>
  return \<open>None\<close> for \<^verbatim>\<open>EOF\<close>. The character classes are those of the C locale, and
  all of them are false on \<^verbatim>\<open>EOF\<close>.
\<close>

definition isdigit :: "char option \<Rightarrow> bool" where
  "isdigit c = (case c of None \<Rightarrow> False
     | Some ch \<Rightarrow> 48 \<le> (of_char ch :: nat) \<and> (of_char ch :: nat) \<le> 57)"

definition isalpha :: "char option \<Rightarrow> bool" where
  "isalpha c = (case c of None \<Rightarrow> False
     | Some ch \<Rightarrow> (65 \<le> (of_char ch :: nat) \<and> (of_char ch :: nat) \<le> 90)
                \<or> (97 \<le> (of_char ch :: nat) \<and> (of_char ch :: nat) \<le> 122))"

definition isspace :: "char option \<Rightarrow> bool" where
  "isspace c = (case c of None \<Rightarrow> False
     | Some ch \<Rightarrow> (of_char ch :: nat) = 32
                \<or> (9 \<le> (of_char ch :: nat) \<and> (of_char ch :: nat) \<le> 13))"

definition peek :: "string \<Rightarrow> char option" where
  "peek s = (case s of [] \<Rightarrow> None | c # _ \<Rightarrow> Some c)"

definition get :: "string \<Rightarrow> char option \<times> string" where
  "get s = (case s of [] \<Rightarrow> (None, []) | c # r \<Rightarrow> (Some c, r))"

definition consume :: "string \<Rightarrow> char option \<Rightarrow> parse_error + string" where
  "consume s expect =
     (case get s of (c, r) \<Rightarrow>
        if c \<noteq> expect then Inl (ParseError ''consume mismatch'') else Inr r)"

text \<open>
  \<^verbatim>\<open>skip_whitespace\<close> consumes the character it has just peeked, which cannot
  mismatch; the loop stops at the first character that is not white space, or at the end.
\<close>

fun skip_whitespace :: "string \<Rightarrow> string" where
  "skip_whitespace [] = []"
| "skip_whitespace (c # r) = (if isspace (Some c) then skip_whitespace r else c # r)"

fun consume_word :: "string \<Rightarrow> string \<Rightarrow> parse_error + string" where
  "consume_word s [] = Inr s"
| "consume_word s (c # cs) =
     (case get s of (g, r) \<Rightarrow>
        if g \<noteq> Some c then Inl (ParseError ''consume mismatch'') else consume_word r cs)"

subsection \<open>The parser\<close>

text \<open>
  The loop of \<^verbatim>\<open>parse_num\<close>, with the accumulator \<open>n\<close>: \<^verbatim>\<open>n = n*10 + (c - '0')\<close> in
  32-bit arithmetic.
\<close>

fun parse_num_loop :: "cint \<Rightarrow> string \<Rightarrow> cint \<times> string" where
  "parse_num_loop n [] = (n, [])"
| "parse_num_loop n (c # r) =
     (if isdigit (Some c) then parse_num_loop (n * 10 + (of_nat (of_char c) - 48)) r
      else (n, c # r))"

definition parse_num :: "string \<Rightarrow> parse_error + expr \<times> string" where
  "parse_num s =
     (if peek s = Some CHR ''-'' then
        (case consume s (Some CHR ''-'') of
           Inl err \<Rightarrow> Inl err
         | Inr s1 \<Rightarrow>
             if \<not> isdigit (peek s1) then Inl (ParseError ''not a num'')
             else (case parse_num_loop 0 s1 of (n, s2) \<Rightarrow> Inr (NumExpr (n * (- 1)), s2)))
      else (case parse_num_loop 0 s of (n, s2) \<Rightarrow> Inr (NumExpr n, s2)))"

fun parse_var_loop :: "string \<Rightarrow> string \<Rightarrow> string \<times> string" where
  "parse_var_loop str [] = (str, [])"
| "parse_var_loop str (c # r) =
     (if isalpha (Some c) then parse_var_loop (str @ [c]) r else (str, c # r))"

definition parse_var :: "string \<Rightarrow> parse_error + expr \<times> string" where
  "parse_var s = (case parse_var_loop [] s of (str, r) \<Rightarrow> Inr (VarExpr str, r))"

text \<open>
  The four mutually recursive procedures. Each takes the unread input and returns the
  expression with the input left over, or the error thrown. \<^verbatim>\<open>parse.cpp\<close> builds its
  nodes as \<^verbatim>\<open>Num\<close>, \<^verbatim>\<open>Var\<close>, \<^verbatim>\<open>Add\<close>, \<^verbatim>\<open>Mult\<close> and \<^verbatim>\<open>Let\<close>, the classes that
  \<^verbatim>\<open>Expr.cpp\<close> names \<^verbatim>\<open>NumExpr\<close>, \<^verbatim>\<open>VarExpr\<close>, \<^verbatim>\<open>AddExpr\<close>, \<^verbatim>\<open>MultExpr\<close> and
  \<^verbatim>\<open>LetExpr\<close>.
\<close>

function parse_expr :: "string \<Rightarrow> parse_error + expr \<times> string"
  and parse_addend :: "string \<Rightarrow> parse_error + expr \<times> string"
  and parse_multicand :: "string \<Rightarrow> parse_error + expr \<times> string"
  and parse_let :: "string \<Rightarrow> parse_error + expr \<times> string"
where
  "parse_expr s =
     (case parse_addend s of
        Inl err \<Rightarrow> Inl err
      | Inr (e, s1) \<Rightarrow>
          (let s2 = skip_whitespace s1 in
           if peek s2 = Some CHR ''+'' then
             (case consume s2 (Some CHR ''+'') of
                Inl err \<Rightarrow> Inl err
              | Inr s3 \<Rightarrow>
                  (case parse_expr s3 of
                     Inl err \<Rightarrow> Inl err
                   | Inr (rhs, s4) \<Rightarrow> Inr (AddExpr e rhs, s4)))
           else Inr (e, s2)))"
| "parse_addend s =
     (case parse_multicand s of
        Inl err \<Rightarrow> Inl err
      | Inr (e, s1) \<Rightarrow>
          (let s2 = skip_whitespace s1 in
           if peek s2 = Some CHR ''*'' then
             (case consume s2 (Some CHR ''*'') of
                Inl err \<Rightarrow> Inl err
              | Inr s3 \<Rightarrow>
                  (case parse_addend (skip_whitespace s3) of
                     Inl err \<Rightarrow> Inl err
                   | Inr (rhs, s4) \<Rightarrow> Inr (MultExpr e rhs, s4)))
           else Inr (e, s2)))"
| "parse_multicand s =
     (let s1 = skip_whitespace s; c = peek s1 in
      if c = Some CHR ''-'' \<or> isdigit c then parse_num s1
      else if c = Some CHR ''('' then
        (case consume s1 (Some CHR ''('') of
           Inl err \<Rightarrow> Inl err
         | Inr s2 \<Rightarrow>
             (case parse_expr s2 of
                Inl err \<Rightarrow> Inl err
              | Inr (e, s3) \<Rightarrow>
                  (case get (skip_whitespace s3) of (c', s4) \<Rightarrow>
                     if c' \<noteq> Some CHR '')'' then Inl (ParseError ''missing close parenthesis'')
                     else Inr (e, s4))))
      else if isalpha c then parse_var s1
      else if c = Some CHR ''_'' then parse_let s1
      else (case consume s1 c of
              Inl err \<Rightarrow> Inl err
            | Inr s2 \<Rightarrow> Inl (ParseError ''invalid input'')))"
| "parse_let s =
     (case consume_word (skip_whitespace s) ''_let'' of
        Inl err \<Rightarrow> Inl err
      | Inr s1 \<Rightarrow>
          (case parse_var (skip_whitespace s1) of
             Inl err \<Rightarrow> Inl err
           | Inr (e, s2) \<Rightarrow>
               (let lhs = to_string e in
                case consume (skip_whitespace s2) (Some CHR ''='') of
                  Inl err \<Rightarrow> Inl err
                | Inr s3 \<Rightarrow>
                    (case parse_expr (skip_whitespace s3) of
                       Inl err \<Rightarrow> Inl err
                     | Inr (rhs, s4) \<Rightarrow>
                         (case consume_word (skip_whitespace s4) ''_in'' of
                            Inl err \<Rightarrow> Inl err
                          | Inr s5 \<Rightarrow>
                              (case parse_expr (skip_whitespace s5) of
                                 Inl err \<Rightarrow> Inl err
                               | Inr (body, s6) \<Rightarrow> Inr (LetExpr lhs rhs body, s6)))))))"
  by pat_completeness auto

text \<open>
  \<^verbatim>\<open>parse\<close> tests \<^verbatim>\<open>in.eof()\<close> right after \<^verbatim>\<open>skip_whitespace\<close>, whose last action is a
  \<^verbatim>\<open>peek()\<close> that found no white space: the end-of-file bit is set exactly when that
  \<^verbatim>\<open>peek()\<close> found no character at all, that is when nothing is left unread.
\<close>

definition parse :: "string \<Rightarrow> parse_error + expr" where
  "parse s =
     (case parse_expr s of
        Inl err \<Rightarrow> Inl err
      | Inr (e, s1) \<Rightarrow>
          if skip_whitespace s1 \<noteq> [] then Inl (ParseError ''invalid input'') else Inr e)"

definition parse_str :: "string \<Rightarrow> parse_error + expr" where
  "parse_str s = parse s"

text \<open>
  \<^verbatim>\<open>equals\<close> compares the dynamic class and then the fields, recursively: it is
  structural equality.
\<close>

fun equals :: "expr \<Rightarrow> expr \<Rightarrow> bool" where
  "equals (NumExpr a) e = (case e of NumExpr b \<Rightarrow> a = b | _ \<Rightarrow> False)"
| "equals (BoolExpr a) e = (case e of BoolExpr b \<Rightarrow> a = b | _ \<Rightarrow> False)"
| "equals (VarExpr a) e = (case e of VarExpr b \<Rightarrow> a = b | _ \<Rightarrow> False)"
| "equals (AddExpr l r) e =
     (case e of AddExpr l' r' \<Rightarrow> equals l l' \<and> equals r r' | _ \<Rightarrow> False)"
| "equals (MultExpr l r) e =
     (case e of MultExpr l' r' \<Rightarrow> equals l l' \<and> equals r r' | _ \<Rightarrow> False)"
| "equals (EqExpr l r) e =
     (case e of EqExpr l' r' \<Rightarrow> equals r r' \<and> equals l l' | _ \<Rightarrow> False)"
| "equals (IfExpr c t f) e =
     (case e of IfExpr c' t' f' \<Rightarrow> equals c c' \<and> equals t t' \<and> equals f f' | _ \<Rightarrow> False)"
| "equals (LetExpr x r b) e =
     (case e of LetExpr x' r' b' \<Rightarrow> x = x' \<and> equals r r' \<and> equals b b' | _ \<Rightarrow> False)"
| "equals (FunExpr x b) e =
     (case e of FunExpr x' b' \<Rightarrow> x = x' \<and> equals b b' | _ \<Rightarrow> False)"
| "equals (CallExpr f a) e =
     (case e of CallExpr f' a' \<Rightarrow> equals f f' \<and> equals a a' | _ \<Rightarrow> False)"

subsection \<open>Notions of the specification\<close>

text \<open>
  The decimal value of a run of digits, as the specification reads a literal (not a
  function of the sources): the number that the digits denote, without any bound.
\<close>

definition decimal_value :: "string \<Rightarrow> nat" where
  "decimal_value ds = foldl (\<lambda>n c. 10 * n + (of_char c - 48)) 0 ds"

text \<open>
  The expressions that the grammar of \<^verbatim>\<open>parse.cpp\<close> can produce: numbers, variables
  with a non-empty alphabetic name, sums, products, and lets that bind an alphabetic
  name (\<^verbatim>\<open>parse_var\<close> also returns the empty name). The least \<^verbatim>\<open>int\<close> is left out:
  reading its digits back overflows the accumulator of \<^verbatim>\<open>parse_num\<close>.
\<close>

definition INT_MIN :: cint where
  "INT_MIN = - 2147483648"

definition alphabetic :: "string \<Rightarrow> bool" where
  "alphabetic x = (\<forall>c\<in>set x. isalpha (Some c))"

fun parseable :: "expr \<Rightarrow> bool" where
  "parseable (NumExpr n) = (n \<noteq> INT_MIN)"
| "parseable (VarExpr x) = (x \<noteq> [] \<and> alphabetic x)"
| "parseable (AddExpr l r) = (parseable l \<and> parseable r)"
| "parseable (MultExpr l r) = (parseable l \<and> parseable r)"
| "parseable (LetExpr x r b) = (alphabetic x \<and> parseable r \<and> parseable b)"
| "parseable _ = False"

text \<open>
  What may follow the text of an expression: the end, or a character that continues
  neither a number nor a name.
\<close>

definition stops :: "string \<Rightarrow> bool" where
  "stops rest = (\<not> isdigit (peek rest) \<and> \<not> isalpha (peek rest))"

text \<open>
  The contexts of the pretty printer, seen from the parser. A text printed at a
  precedence is read by the procedure of that level: \<^verbatim>\<open>parse_multicand\<close> at
  \<open>prec_mult\<close>, \<^verbatim>\<open>parse_addend\<close> at \<open>prec_add\<close>, \<^verbatim>\<open>parse_expr\<close> at \<open>prec_none\<close>
  (\<open>level\<close>). What follows the text must not be taken for a continuation of it
  (\<open>fits\<close>): an operator may follow only where the printer was told, through
  \<open>let_parent\<close>, to close a trailing \<open>_let\<close> in parentheses. \<open>reads prec lp e t\<close> says
  that the text \<open>t\<close>, in any such position, is read as the expression \<open>e\<close>.
\<close>

definition closing :: "string \<Rightarrow> bool" where
  "closing rest = (peek (skip_whitespace rest) \<noteq> Some CHR ''*''
     \<and> peek (skip_whitespace rest) \<noteq> Some CHR ''+'')"

fun fits :: "precedence_t \<Rightarrow> bool \<Rightarrow> string \<Rightarrow> bool" where
  "fits prec_mult lp rest = (lp \<or> closing rest)"
| "fits prec_add lp rest =
     (if lp then peek (skip_whitespace rest) \<noteq> Some CHR ''*'' else closing rest)"
| "fits prec_none lp rest = closing rest"

fun level :: "precedence_t \<Rightarrow> string \<Rightarrow> expr \<Rightarrow> string \<Rightarrow> bool" where
  "level prec_mult s e r = (\<exists>r'. parse_multicand s = Inr (e, r') \<and> skip_whitespace r' = r)"
| "level prec_add s e r = (parse_addend s = Inr (e, r))"
| "level prec_none s e r = (parse_expr s = Inr (e, r))"

definition reads :: "precedence_t \<Rightarrow> bool \<Rightarrow> expr \<Rightarrow> string \<Rightarrow> bool" where
  "reads prec lp e t =
     (\<forall>rest. stops rest \<and> fits prec lp rest \<longrightarrow> level prec (t @ rest) e (skip_whitespace rest))"

subsection \<open>Termination of the parser\<close>

text \<open>No procedure returns more input than it was given.\<close>

lemma skip_whitespace_length: "length (skip_whitespace s) \<le> length s"
  by (induction s) auto

lemma consume_Some_length: "consume s (Some c) = Inr r \<Longrightarrow> length r < length s"
  by (auto simp: consume_def get_def split: list.splits if_splits)

lemma consume_word_length: "consume_word s w = Inr r \<Longrightarrow> length r + length w = length s"
  by (induction s w rule: consume_word.induct)
     (auto simp: get_def split: list.splits if_splits)

lemma parse_num_loop_length: "parse_num_loop n s = (m, r) \<Longrightarrow> length r \<le> length s"
  by (induction n s rule: parse_num_loop.induct) (auto split: if_splits)

lemma parse_num_length: "parse_num s = Inr (e, r) \<Longrightarrow> length r \<le> length s"
  by (auto simp: parse_num_def split: if_splits sum.splits prod.splits
           dest!: parse_num_loop_length consume_Some_length)

lemma parse_var_loop_length: "parse_var_loop str s = (v, r) \<Longrightarrow> length r \<le> length s"
  by (induction str s rule: parse_var_loop.induct) (auto split: if_splits)

lemma parse_var_length: "parse_var s = Inr (e, r) \<Longrightarrow> length r \<le> length s"
  by (auto simp: parse_var_def split: prod.splits dest!: parse_var_loop_length)

lemma parse_length_partial:
  "parse_expr_parse_addend_parse_multicand_parse_let_dom (Inl (Inl sa)) \<Longrightarrow>
     parse_expr sa = Inr (ea, ra) \<Longrightarrow> length ra \<le> length sa"
  "parse_expr_parse_addend_parse_multicand_parse_let_dom (Inl (Inr sb)) \<Longrightarrow>
     parse_addend sb = Inr (eb, rb) \<Longrightarrow> length rb \<le> length sb"
  "parse_expr_parse_addend_parse_multicand_parse_let_dom (Inr (Inl sc)) \<Longrightarrow>
     parse_multicand sc = Inr (ec, rc) \<Longrightarrow> length rc \<le> length sc"
  "parse_expr_parse_addend_parse_multicand_parse_let_dom (Inr (Inr sd)) \<Longrightarrow>
     parse_let sd = Inr (ed, rd) \<Longrightarrow> length rd \<le> length sd"
proof (induction sa and sb and sc and sd arbitrary: ea ra and eb rb and ec rc and ed rd
       rule: parse_expr_parse_addend_parse_multicand_parse_let.pinduct)
  case (1 s)
  from "1.prems" have eq: "(case parse_addend s of
        Inl err \<Rightarrow> Inl err
      | Inr (e, s1) \<Rightarrow>
          (let s2 = skip_whitespace s1 in
           if peek s2 = Some CHR ''+'' then
             (case consume s2 (Some CHR ''+'') of
                Inl err \<Rightarrow> Inl err
              | Inr s3 \<Rightarrow>
                  (case parse_expr s3 of
                     Inl err \<Rightarrow> Inl err
                   | Inr (rhs, s4) \<Rightarrow> Inr (AddExpr e rhs, s4)))
           else Inr (e, s2))) = Inr (ea, ra)"
    by (simp only: parse_expr.psimps [OF "1.hyps"])
  then obtain e s1 where a: "parse_addend s = Inr (e, s1)"
    by (cases "parse_addend s") auto
  have l1: "length s1 \<le> length s" using "1.IH"(1) [OF a] .
  have l2: "length (skip_whitespace s1) \<le> length s1" by (rule skip_whitespace_length)
  show ?case
  proof (cases "peek (skip_whitespace s1) = Some CHR ''+''")
    case False
    with eq a have "ra = skip_whitespace s1" by (simp add: Let_def)
    with l1 l2 show ?thesis by simp
  next
    case True
    with eq a obtain s3 where c: "consume (skip_whitespace s1) (Some CHR ''+'') = Inr s3"
      by (cases "consume (skip_whitespace s1) (Some CHR ''+'')") (auto simp: Let_def)
    with eq a True obtain rhs where p: "parse_expr s3 = Inr (rhs, ra)"
      by (cases "parse_expr s3") (auto simp: Let_def)
    have "length ra \<le> length s3"
      using "1.IH"(2) [OF a refl refl True c p] .
    with consume_Some_length [OF c] l1 l2 show ?thesis by simp
  qed
next
  case (2 s)
  from "2.prems" have eq: "(case parse_multicand s of
        Inl err \<Rightarrow> Inl err
      | Inr (e, s1) \<Rightarrow>
          (let s2 = skip_whitespace s1 in
           if peek s2 = Some CHR ''*'' then
             (case consume s2 (Some CHR ''*'') of
                Inl err \<Rightarrow> Inl err
              | Inr s3 \<Rightarrow>
                  (case parse_addend (skip_whitespace s3) of
                     Inl err \<Rightarrow> Inl err
                   | Inr (rhs, s4) \<Rightarrow> Inr (MultExpr e rhs, s4)))
           else Inr (e, s2))) = Inr (eb, rb)"
    by (simp only: parse_addend.psimps [OF "2.hyps"])
  then obtain e s1 where a: "parse_multicand s = Inr (e, s1)"
    by (cases "parse_multicand s") auto
  have l1: "length s1 \<le> length s" using "2.IH"(1) [OF a] .
  have l2: "length (skip_whitespace s1) \<le> length s1" by (rule skip_whitespace_length)
  show ?case
  proof (cases "peek (skip_whitespace s1) = Some CHR ''*''")
    case False
    with eq a have "rb = skip_whitespace s1" by (simp add: Let_def)
    with l1 l2 show ?thesis by simp
  next
    case True
    with eq a obtain s3 where c: "consume (skip_whitespace s1) (Some CHR ''*'') = Inr s3"
      by (cases "consume (skip_whitespace s1) (Some CHR ''*'')") (auto simp: Let_def)
    with eq a True obtain rhs where p: "parse_addend (skip_whitespace s3) = Inr (rhs, rb)"
      by (cases "parse_addend (skip_whitespace s3)") (auto simp: Let_def)
    have "length rb \<le> length (skip_whitespace s3)"
      using "2.IH"(2) [OF a refl refl True c p] .
    with consume_Some_length [OF c] l1 l2 skip_whitespace_length [of s3] show ?thesis by simp
  qed
next
  case (3 s)
  let ?s1 = "skip_whitespace s"
  let ?c = "peek ?s1"
  have l0: "length ?s1 \<le> length s" by (rule skip_whitespace_length)
  note eq = "3.prems" [unfolded parse_multicand.psimps [OF "3.hyps"] Let_def]
  show ?case
  proof (cases "?c = Some CHR ''-'' \<or> isdigit ?c")
    case True
    with eq have "parse_num ?s1 = Inr (ec, rc)" by simp
    from parse_num_length [OF this] l0 show ?thesis by simp
  next
    case nonum: False
    show ?thesis
    proof (cases "?c = Some CHR ''(''")
      case True
      with eq nonum obtain s2 where c: "consume ?s1 (Some CHR ''('') = Inr s2"
        by (cases "consume ?s1 (Some CHR ''('')") auto
      with eq nonum True obtain e s3 where p: "parse_expr s2 = Inr (e, s3)"
        by (cases "parse_expr s2") auto
      have l3: "length s3 \<le> length s2"
        using "3.IH"(1) [OF refl refl nonum True c p] .
      from eq nonum True c p have "rc = snd (get (skip_whitespace s3))"
        by (auto split: prod.splits if_splits)
      then have "length rc \<le> length s3"
        using skip_whitespace_length [of s3]
        by (auto simp: get_def split: list.splits)
      with l3 consume_Some_length [OF c] l0 show ?thesis by simp
    next
      case noparen: False
      show ?thesis
      proof (cases "isalpha ?c")
        case True
        with eq nonum noparen have "parse_var ?s1 = Inr (ec, rc)" by simp
        from parse_var_length [OF this] l0 show ?thesis by simp
      next
        case noalpha: False
        show ?thesis
        proof (cases "?c = Some CHR ''_''")
          case True
          with eq nonum noparen noalpha have p: "parse_let ?s1 = Inr (ec, rc)" by simp
          have "length rc \<le> length ?s1"
            using "3.IH"(2) [OF refl refl nonum noparen noalpha True p] .
          with l0 show ?thesis by simp
        next
          case False
          with eq nonum noparen noalpha show ?thesis
            by (auto split: sum.splits)
        qed
      qed
    qed
  qed
next
  case (4 s)
  note eq = "4.prems" [unfolded parse_let.psimps [OF "4.hyps"]]
  then obtain s1 where a1: "consume_word (skip_whitespace s) ''_let'' = Inr s1"
    by (cases "consume_word (skip_whitespace s) ''_let''") auto
  with eq obtain e s2 where a2: "parse_var (skip_whitespace s1) = Inr (e, s2)"
    by (cases "parse_var (skip_whitespace s1)") auto
  with eq a1 obtain s3 where a3: "consume (skip_whitespace s2) (Some CHR ''='') = Inr s3"
    by (cases "consume (skip_whitespace s2) (Some CHR ''='')") (auto simp: Let_def)
  with eq a1 a2 obtain rhs s4 where a4: "parse_expr (skip_whitespace s3) = Inr (rhs, s4)"
    by (cases "parse_expr (skip_whitespace s3)") (auto simp: Let_def)
  with eq a1 a2 a3 obtain s5 where a5: "consume_word (skip_whitespace s4) ''_in'' = Inr s5"
    by (cases "consume_word (skip_whitespace s4) ''_in''") (auto simp: Let_def)
  with eq a1 a2 a3 a4 obtain body where a6: "parse_expr (skip_whitespace s5) = Inr (body, rd)"
    by (cases "parse_expr (skip_whitespace s5)") (auto simp: Let_def)
  have l4: "length s4 \<le> length (skip_whitespace s3)"
    using "4.IH"(1) [OF a1 a2 refl refl a3 a4] .
  have l6: "length rd \<le> length (skip_whitespace s5)"
    using "4.IH"(2) [OF a1 a2 refl refl a3 a4 refl a5 a6] .
  from l4 l6 consume_word_length [OF a1] consume_word_length [OF a5]
    parse_var_length [OF a2] consume_Some_length [OF a3]
    skip_whitespace_length [of s] skip_whitespace_length [of s1] skip_whitespace_length [of s2]
    skip_whitespace_length [of s3] skip_whitespace_length [of s4] skip_whitespace_length [of s5]
  show ?case by simp
qed


termination parse_expr
proof (relation "measure (\<lambda>x. case x of
          Inl (Inl s) \<Rightarrow> 4 * length s + 3
        | Inl (Inr s) \<Rightarrow> 4 * length s + 2
        | Inr (Inl s) \<Rightarrow> 4 * length s + 1
        | Inr (Inr s) \<Rightarrow> 4 * length s)", goal_cases)
  case 1
  show ?case by simp
next
  case (2 s)
  show ?case by simp
next
  case (3 s b x y xa ba)
  then show ?case
    using parse_length_partial(2) [of s x y] skip_whitespace_length [of y]
      consume_Some_length [of xa "CHR ''+''" ba]
    by simp
next
  case (4 s)
  show ?case by simp
next
  case (5 s b x y xa ba)
  then show ?case
    using parse_length_partial(3) [of s x y] skip_whitespace_length [of y]
      consume_Some_length [of xa "CHR ''*''" ba] skip_whitespace_length [of ba]
    by simp
next
  case (6 s x xa b)
  then show ?case
    using skip_whitespace_length [of s] consume_Some_length [of x "CHR ''(''" b]
    by simp
next
  case (7 s x xa)
  then show ?case
    using skip_whitespace_length [of s] by simp
next
  case (8 s b ba x y xa bb)
  from 8 have v: "parse_var (skip_whitespace b) = Inr (x, y)" by simp
  from 8 skip_whitespace_length [of s]
    consume_word_length [of "skip_whitespace s" "''_let''" b]
    skip_whitespace_length [of b] parse_var_length [OF v]
    skip_whitespace_length [of y] consume_Some_length [of "skip_whitespace y" "CHR ''=''" bb]
    skip_whitespace_length [of bb]
  show ?case by (simp del: consume_word.simps)
next
  case (9 s b ba x y xa bb bc xb ya bd)
  from 9 have v: "parse_var (skip_whitespace b) = Inr (x, y)" by simp
  from 9 have p: "parse_expr (skip_whitespace bb) = Inr (xb, ya)" by simp
  from 9 have d: "parse_expr_parse_addend_parse_multicand_parse_let_dom
      (Inl (Inl (skip_whitespace bb)))" by simp
  from 9 skip_whitespace_length [of s]
    consume_word_length [of "skip_whitespace s" "''_let''" b]
    skip_whitespace_length [of b] parse_var_length [OF v]
    skip_whitespace_length [of y] consume_Some_length [of "skip_whitespace y" "CHR ''=''" bb]
    skip_whitespace_length [of bb] parse_length_partial(1) [OF d p]
    skip_whitespace_length [of ya] consume_word_length [of "skip_whitespace ya" "''_in''" bd]
    skip_whitespace_length [of bd]
  show ?case by (simp del: consume_word.simps)
qed


declare parse_expr.simps [simp del] parse_addend.simps [simp del]
  parse_multicand.simps [simp del] parse_let.simps [simp del]


subsection \<open>The evaluator, one class at a time\<close>

lemma interp_NumExpr: "interp (NumExpr n) env = Some (Inr (NumVal n))"
  by (subst interp.simps) simp

lemma interp_BoolExpr: "interp (BoolExpr b) env = Some (Inr (BoolVal b))"
  by (subst interp.simps) simp

lemma interp_VarExpr:
  "interp (VarExpr x) env =
     (case env of None \<Rightarrow> Some (Inl NullEnvDereference) | Some en \<Rightarrow> Some (lookup en x))"
  by (subst interp.simps) simp

lemma interp_AddExpr:
  "interp (AddExpr lhs rhs) env =
     Option.bind (interp lhs (Some (start_env env))) (\<lambda>l.
       case l of
         Inl err \<Rightarrow> Some (Inl err)
       | Inr lv \<Rightarrow>
           Option.bind (interp rhs (Some (start_env env))) (\<lambda>r.
             case r of
               Inl err \<Rightarrow> Some (Inl err)
             | Inr rv \<Rightarrow> Some (add_to lv rv)))"
  by (subst interp.simps) (simp add: Let_def)

lemma interp_IfExpr:
  "interp (IfExpr c t f) env =
     Option.bind (interp c (Some (start_env env))) (\<lambda>r.
       case r of
         Inl err \<Rightarrow> Some (Inl err)
       | Inr v \<Rightarrow>
           if v = BoolVal True then interp t (Some (start_env env))
           else interp f (Some (start_env env)))"
proof (cases "interp c (Some (start_env env))")
  case None
  then show ?thesis by (subst interp.simps) (simp add: Let_def)
next
  case (Some r)
  then show ?thesis
    by (subst interp.simps) (auto simp: Let_def split: sum.splits val.splits)
qed

lemma interp_LetExpr:
  "interp (LetExpr x rhs body) env =
     Option.bind (interp rhs (Some (start_env env))) (\<lambda>r.
       case r of
         Inl err \<Rightarrow> Some (Inl err)
       | Inr v \<Rightarrow> interp body (Some (ExtendedEnv x v (start_env env))))"
  by (subst interp.simps) (simp add: Let_def)

lemma interp_FunExpr:
  "interp (FunExpr x body) env = Some (Inr (FunVal x body (start_env env)))"
  by (subst interp.simps) (simp add: Let_def)

lemma interp_CallExpr:
  "interp (CallExpr f a) env =
     Option.bind (interp f (Some (start_env env))) (\<lambda>r.
       case r of
         Inl err \<Rightarrow> Some (Inl err)
       | Inr fv \<Rightarrow>
           Option.bind (interp a (Some (start_env env))) (\<lambda>r'.
             case r' of
               Inl err \<Rightarrow> Some (Inl err)
             | Inr av \<Rightarrow>
                 (case fv of
                    FunVal formal_arg body cenv \<Rightarrow>
                      interp body (Some (ExtendedEnv formal_arg av cenv))
                  | _ \<Rightarrow> Some (Inl TypeError))))"
  by (subst interp.simps) (simp add: Let_def)

lemmas interp_eqs = interp_NumExpr interp_BoolExpr interp_VarExpr interp_AddExpr
  interp_IfExpr interp_LetExpr interp_FunExpr interp_CallExpr

subsection \<open>What the canonical printer writes\<close>

lemma print_rendering: "print e os = os @ rendering e"
  by (induction e arbitrary: os) simp_all

lemma to_string_rendering: "to_string e = rendering e"
  by (simp add: to_string_def print_rendering)


subsection \<open>How the parsing procedures compose\<close>

lemma skip_whitespace_idem [simp]: "skip_whitespace (skip_whitespace s) = skip_whitespace s"
  by (induction s) auto

lemma skip_whitespace_Nil_iff: "skip_whitespace s = [] \<longleftrightarrow> (\<forall>c\<in>set s. isspace (Some c))"
  by (induction s) auto

lemma parse_multicand_skip: "parse_multicand (skip_whitespace s) = parse_multicand s"
  by (simp add: parse_multicand.simps [of s] parse_multicand.simps [of "skip_whitespace s"])

lemma parse_addend_skip: "parse_addend (skip_whitespace s) = parse_addend s"
  by (simp add: parse_addend.simps [of s] parse_addend.simps [of "skip_whitespace s"]
      parse_multicand_skip)

lemma parse_expr_skip: "parse_expr (skip_whitespace s) = parse_expr s"
  by (simp add: parse_expr.simps [of s] parse_expr.simps [of "skip_whitespace s"]
      parse_addend_skip)

lemma parse_addend_stop:
  "parse_multicand s = Inr (e, r) \<Longrightarrow> peek (skip_whitespace r) \<noteq> Some CHR ''*'' \<Longrightarrow>
   parse_addend s = Inr (e, skip_whitespace r)"
  by (simp add: parse_addend.simps [of s])

lemma parse_addend_mult:
  "parse_multicand s = Inr (e, r) \<Longrightarrow> skip_whitespace r = CHR ''*'' # r2 \<Longrightarrow>
   parse_addend r2 = Inr (e2, r3) \<Longrightarrow> parse_addend s = Inr (MultExpr e e2, r3)"
  by (simp add: parse_addend.simps [of s] peek_def consume_def get_def parse_addend_skip)

lemma parse_expr_stop:
  "parse_addend s = Inr (e, r) \<Longrightarrow> peek (skip_whitespace r) \<noteq> Some CHR ''+'' \<Longrightarrow>
   parse_expr s = Inr (e, skip_whitespace r)"
  by (simp add: parse_expr.simps [of s])

lemma parse_expr_add:
  "parse_addend s = Inr (e, r) \<Longrightarrow> skip_whitespace r = CHR ''+'' # r2 \<Longrightarrow>
   parse_expr r2 = Inr (e2, r3) \<Longrightarrow> parse_expr s = Inr (AddExpr e e2, r3)"
  by (simp add: parse_expr.simps [of s] peek_def consume_def get_def)

lemma parse_multicand_paren:
  "skip_whitespace s = CHR ''('' # s2 \<Longrightarrow> parse_expr s2 = Inr (e, r) \<Longrightarrow>
   skip_whitespace r = CHR '')'' # r2 \<Longrightarrow> parse_multicand s = Inr (e, r2)"
  by (simp add: parse_multicand.simps [of s] peek_def consume_def get_def isdigit_def)

lemma parse_add_right_assoc:
  assumes "parse_addend (A @ CHR ''+'' # B @ CHR ''+'' # C) = Inr (a, CHR ''+'' # B @ CHR ''+'' # C)"
    and "parse_addend (B @ CHR ''+'' # C) = Inr (b, CHR ''+'' # C)"
    and "parse_addend C = Inr (c, [])"
  shows "parse_str (A @ CHR ''+'' # B @ CHR ''+'' # C) = Inr (AddExpr a (AddExpr b c))"
proof -
  have c: "parse_expr C = Inr (c, [])"
    using parse_expr_stop [OF assms(3)] by (simp add: peek_def)
  have b: "parse_expr (B @ CHR ''+'' # C) = Inr (AddExpr b c, [])"
    using parse_expr_add [OF assms(2) _ c] by (simp add: isspace_def)
  have "parse_expr (A @ CHR ''+'' # B @ CHR ''+'' # C) = Inr (AddExpr a (AddExpr b c), [])"
    using parse_expr_add [OF assms(1) _ b] by (simp add: isspace_def)
  then show ?thesis by (simp add: parse_str_def parse_def)
qed

lemma parse_mult_right_assoc:
  assumes "parse_multicand (A @ CHR ''*'' # B @ CHR ''*'' # C) = Inr (a, CHR ''*'' # B @ CHR ''*'' # C)"
    and "parse_multicand (B @ CHR ''*'' # C) = Inr (b, CHR ''*'' # C)"
    and "parse_multicand C = Inr (c, [])"
  shows "parse_str (A @ CHR ''*'' # B @ CHR ''*'' # C) = Inr (MultExpr a (MultExpr b c))"
proof -
  have c: "parse_addend C = Inr (c, [])"
    using parse_addend_stop [OF assms(3)] by (simp add: peek_def)
  have b: "parse_addend (B @ CHR ''*'' # C) = Inr (MultExpr b c, [])"
    using parse_addend_mult [OF assms(2) _ c] by (simp add: isspace_def)
  have "parse_addend (A @ CHR ''*'' # B @ CHR ''*'' # C) = Inr (MultExpr a (MultExpr b c), [])"
    using parse_addend_mult [OF assms(1) _ b] by (simp add: isspace_def)
  from parse_expr_stop [OF this] show ?thesis
    by (simp add: parse_str_def parse_def peek_def)
qed

lemma parse_mult_binds_tighter:
  assumes "parse_multicand (A @ CHR ''+'' # B @ CHR ''*'' # C) = Inr (a, CHR ''+'' # B @ CHR ''*'' # C)"
    and "parse_multicand (B @ CHR ''*'' # C) = Inr (b, CHR ''*'' # C)"
    and "parse_multicand C = Inr (c, [])"
  shows "parse_str (A @ CHR ''+'' # B @ CHR ''*'' # C) = Inr (AddExpr a (MultExpr b c))"
proof -
  have c: "parse_addend C = Inr (c, [])"
    using parse_addend_stop [OF assms(3)] by (simp add: peek_def)
  have "parse_addend (B @ CHR ''*'' # C) = Inr (MultExpr b c, [])"
    using parse_addend_mult [OF assms(2) _ c] by (simp add: isspace_def)
  from parse_expr_stop [OF this] have b: "parse_expr (B @ CHR ''*'' # C) = Inr (MultExpr b c, [])"
    by (simp add: peek_def)
  have a: "parse_addend (A @ CHR ''+'' # B @ CHR ''*'' # C) = Inr (a, CHR ''+'' # B @ CHR ''*'' # C)"
    using parse_addend_stop [OF assms(1)] by (simp add: peek_def isspace_def)
  have "parse_expr (A @ CHR ''+'' # B @ CHR ''*'' # C) = Inr (AddExpr a (MultExpr b c), [])"
    using parse_expr_add [OF a _ b] by (simp add: isspace_def)
  then show ?thesis by (simp add: parse_str_def parse_def)
qed


section \<open>The claims\<close>

subsection \<open>Printing of equality\<close>

text \<open>
  Claim C10. The canonical rendering of \<open>EqExpr l r\<close> is an opening parenthesis, the
  rendering of the right operand \<open>r\<close>, the two characters \<open>==\<close>, the rendering of the
  left operand \<open>l\<close> and a closing parenthesis: the operands appear in swapped order.
\<close>

theorem EqExpr_print_swapped:
  "to_string (EqExpr l r) = ''('' @ to_string r @ ''=='' @ to_string l @ '')''"
  by (simp add: to_string_rendering)

subsection \<open>Conditionals\<close>

text \<open>
  Claim C6. Under any environment, present or absent, \<open>IfExpr c t f\<close> evaluates the
  condition \<open>c\<close>; when that yields a value \<open>v\<close>, the result is that of the then-branch
  if \<open>v\<close> is \<open>BoolVal True\<close> and that of the else-branch for every other value, a
  number or a closure included: no type error is raised for a condition that is not
  a boolean.
\<close>

theorem IfExpr_interp_permissive:
  "interp c (Some (start_env env)) = Some (Inr v) \<Longrightarrow>
     interp (IfExpr c t f) env =
       (if v = BoolVal True then interp t (Some (start_env env))
        else interp f (Some (start_env env)))"
  by (simp add: interp_IfExpr)

theorem IfExpr_interp_permissive_witness:
  "interp (NumExpr 1) (Some (start_env None)) = Some (Inr (NumVal 1))
   \<and> interp (IfExpr (NumExpr 1) (NumExpr 2) (NumExpr 3)) None = Some (Inr (NumVal 3))"
proof -
  have h: "interp (NumExpr 1) (Some (start_env None)) = Some (Inr (NumVal 1))"
    by (simp add: interp_NumExpr)
  from IfExpr_interp_permissive [OF h, of "NumExpr 2" "NumExpr 3"] h
  show ?thesis by (simp add: interp_NumExpr)
qed

subsection \<open>Let\<close>






subsection \<open>A variable without an environment\<close>

lemma parse_str_x: "parse_str ''x'' = Inr (VarExpr ''x'')"
  by code_simp

text \<open>
  Claim C8. The text \<open>x\<close> parses to \<open>VarExpr x\<close>. \<^verbatim>\<open>VarExpr::interp\<close> does not replace
  an absent environment by the empty one, as the \<open>interp\<close> of the other classes does:
  evaluated without an environment it dereferences the null pointer, and the outcome
  is not the unbound-variable error. Given the empty environment, or below an
  \<open>AddExpr\<close> evaluated without an environment, the same variable is reported unbound.
\<close>

theorem VarExpr_interp_null_env:
  "parse_str ''x'' = Inr (VarExpr ''x'')
   \<and> interp (VarExpr ''x'') None = Some (Inl NullEnvDereference)
   \<and> interp (VarExpr ''x'') None \<noteq> Some (Inl UnboundVariableError)
   \<and> interp (VarExpr ''x'') (Some EmptyEnv) = Some (Inl UnboundVariableError)
   \<and> interp (AddExpr (VarExpr ''x'') (NumExpr 0)) None = Some (Inl UnboundVariableError)"
  by (simp add: parse_str_x interp_eqs start_env_def)

subsection \<open>Closures\<close>

lemma interp_closure_example:
  "interp (LetExpr ''x'' (NumExpr 1)
     (LetExpr ''f'' (FunExpr ''y'' (AddExpr (VarExpr ''x'') (VarExpr ''y'')))
       (LetExpr ''x'' (NumExpr 2) (CallExpr (VarExpr ''f'') (NumExpr 3))))) None =
   Some (Inr (NumVal 4))"
  by (simp add: interp_eqs start_env_def)

text \<open>
  Claim C4, as stated: the text of the closure test does not parse. \<^verbatim>\<open>parse_multicand\<close>
  sends every \<open>_\<close> to \<^verbatim>\<open>parse_let\<close>, which expects \<open>_let\<close> and stops at \<open>_fun\<close>.
\<close>

theorem parse_str_closure_text_fails:
  "parse_str ''_let x=1 _in _let f=_fun(y) x+y _in _let x=2 _in f 3'' =
     Inl (ParseError ''consume mismatch'')"
  by code_simp

text \<open>
  Claim C4, amended. A function expression evaluates to a closure over the environment
  in force; a call whose callee yields a closure and whose argument yields a value
  evaluates the closure's body under the captured environment extended with the
  parameter bound to the argument, not under the caller's environment. The tree that
  the text of the closure test denotes, built directly, evaluates without an
  environment to \<open>NumVal 4\<close>: the \<open>x\<close> of the body is the 1 of the definition, not the
  2 of the later binding.
\<close>

theorem closure_capture:
  "interp (FunExpr p b) env = Some (Inr (FunVal p b (start_env env)))
   \<and> (interp g (Some (start_env env)) = Some (Inr (FunVal q c cenv))
        \<and> interp a (Some (start_env env)) = Some (Inr av) \<longrightarrow>
      interp (CallExpr g a) env = interp c (Some (ExtendedEnv q av cenv)))
   \<and> interp (LetExpr ''x'' (NumExpr 1)
        (LetExpr ''f'' (FunExpr ''y'' (AddExpr (VarExpr ''x'') (VarExpr ''y'')))
          (LetExpr ''x'' (NumExpr 2) (CallExpr (VarExpr ''f'') (NumExpr 3))))) None =
      Some (Inr (NumVal 4))"
  by (simp add: interp_FunExpr interp_CallExpr interp_closure_example)

theorem closure_capture_witness:
  "interp (FunExpr ''y'' (VarExpr ''y'')) (Some (start_env None)) =
     Some (Inr (FunVal ''y'' (VarExpr ''y'') EmptyEnv))
   \<and> interp (NumExpr 3) (Some (start_env None)) = Some (Inr (NumVal 3))
   \<and> interp (CallExpr (FunExpr ''y'' (VarExpr ''y'')) (NumExpr 3)) None = Some (Inr (NumVal 3))"
proof -
  have h1: "interp (FunExpr ''y'' (VarExpr ''y'')) (Some (start_env None)) =
      Some (Inr (FunVal ''y'' (VarExpr ''y'') EmptyEnv))"
    by (simp add: interp_FunExpr start_env_def)
  have h2: "interp (NumExpr 3) (Some (start_env None)) = Some (Inr (NumVal 3))"
    by (simp add: interp_NumExpr)
  from closure_capture [of _ _ None "FunExpr ''y'' (VarExpr ''y'')" "''y''" "VarExpr ''y''"
      EmptyEnv "NumExpr 3" "NumVal 3"] h1 h2
  have "interp (CallExpr (FunExpr ''y'' (VarExpr ''y'')) (NumExpr 3)) None =
      interp (VarExpr ''y'') (Some (ExtendedEnv ''y'' (NumVal 3) EmptyEnv))"
    by blast
  with h1 h2 show ?thesis by (simp add: interp_VarExpr)
qed

subsection \<open>Precedence and associativity\<close>

lemma parse_str_prec_1:
  "parse_str ''1+2*3'' = Inr (AddExpr (NumExpr 1) (MultExpr (NumExpr 2) (NumExpr 3)))"
  by code_simp

lemma to_string_prec_1:
  "to_string (AddExpr (NumExpr 1) (MultExpr (NumExpr 2) (NumExpr 3))) = ''(1+(2*3))''"
  by code_simp

lemma parse_str_prec_2:
  "parse_str ''(1+2)*3'' = Inr (MultExpr (AddExpr (NumExpr 1) (NumExpr 2)) (NumExpr 3))"
  by code_simp

lemma to_string_prec_2:
  "to_string (MultExpr (AddExpr (NumExpr 1) (NumExpr 2)) (NumExpr 3)) = ''((1+2)*3)''"
  by code_simp

text \<open>
  Claim C3. Let the texts \<open>A\<close>, \<open>B\<close> and \<open>C\<close> be operands: read in place, each is
  parsed as one operand (\<open>a\<close>, \<open>b\<close>, \<open>c\<close>) up to the operator that follows it. Then
  \<open>A+B+C\<close> parses to \<open>AddExpr a (AddExpr b c)\<close>, \<open>A*B*C\<close> to
  \<open>MultExpr a (MultExpr b c)\<close>, and \<open>A+B*C\<close> to \<open>AddExpr a (MultExpr b c)\<close>:
  both operators associate to the right and multiplication binds tighter. The text
  \<open>1+2*3\<close> parses to a tree printed as \<open>(1+(2*3))\<close>, and \<open>(1+2)*3\<close> to one printed as
  \<open>((1+2)*3)\<close>.
\<close>

theorem parse_precedence_associativity:
  "(parse_addend (A @ CHR ''+'' # B @ CHR ''+'' # C) = Inr (a, CHR ''+'' # B @ CHR ''+'' # C)
      \<and> parse_addend (B @ CHR ''+'' # C) = Inr (b, CHR ''+'' # C)
      \<and> parse_addend C = Inr (c, []) \<longrightarrow>
    parse_str (A @ CHR ''+'' # B @ CHR ''+'' # C) = Inr (AddExpr a (AddExpr b c)))
   \<and> (parse_multicand (A @ CHR ''*'' # B @ CHR ''*'' # C) = Inr (a, CHR ''*'' # B @ CHR ''*'' # C)
      \<and> parse_multicand (B @ CHR ''*'' # C) = Inr (b, CHR ''*'' # C)
      \<and> parse_multicand C = Inr (c, []) \<longrightarrow>
    parse_str (A @ CHR ''*'' # B @ CHR ''*'' # C) = Inr (MultExpr a (MultExpr b c)))
   \<and> (parse_multicand (A @ CHR ''+'' # B @ CHR ''*'' # C) = Inr (a, CHR ''+'' # B @ CHR ''*'' # C)
      \<and> parse_multicand (B @ CHR ''*'' # C) = Inr (b, CHR ''*'' # C)
      \<and> parse_multicand C = Inr (c, []) \<longrightarrow>
    parse_str (A @ CHR ''+'' # B @ CHR ''*'' # C) = Inr (AddExpr a (MultExpr b c)))
   \<and> (\<exists>e. parse_str ''1+2*3'' = Inr e \<and> to_string e = ''(1+(2*3))'')
   \<and> (\<exists>e. parse_str ''(1+2)*3'' = Inr e \<and> to_string e = ''((1+2)*3)'')"
  using parse_add_right_assoc [of A B C a b c] parse_mult_right_assoc [of A B C a b c]
    parse_mult_binds_tighter [of A B C a b c]
  by (simp add: parse_str_prec_1 to_string_prec_1 parse_str_prec_2 to_string_prec_2)

lemma parse_operands_123:
  "parse_addend ''1+2+3'' = Inr (NumExpr 1, ''+2+3'')"
  "parse_addend ''2+3'' = Inr (NumExpr 2, ''+3'')"
  "parse_addend ''3'' = Inr (NumExpr 3, [])"
  "parse_multicand ''1*2*3'' = Inr (NumExpr 1, ''*2*3'')"
  "parse_multicand ''2*3'' = Inr (NumExpr 2, ''*3'')"
  "parse_multicand ''3'' = Inr (NumExpr 3, [])"
  "parse_multicand ''1+2*3'' = Inr (NumExpr 1, ''+2*3'')"
  by code_simp+

theorem parse_precedence_associativity_witness:
  "parse_addend ''1+2+3'' = Inr (NumExpr 1, ''+2+3'')
   \<and> parse_addend ''2+3'' = Inr (NumExpr 2, ''+3'')
   \<and> parse_addend ''3'' = Inr (NumExpr 3, [])
   \<and> parse_str ''1+2+3'' = Inr (AddExpr (NumExpr 1) (AddExpr (NumExpr 2) (NumExpr 3)))
   \<and> parse_multicand ''1*2*3'' = Inr (NumExpr 1, ''*2*3'')
   \<and> parse_multicand ''2*3'' = Inr (NumExpr 2, ''*3'')
   \<and> parse_multicand ''3'' = Inr (NumExpr 3, [])
   \<and> parse_str ''1*2*3'' = Inr (MultExpr (NumExpr 1) (MultExpr (NumExpr 2) (NumExpr 3)))
   \<and> parse_multicand ''1+2*3'' = Inr (NumExpr 1, ''+2*3'')
   \<and> parse_str ''1+2*3'' = Inr (AddExpr (NumExpr 1) (MultExpr (NumExpr 2) (NumExpr 3)))"
  using parse_precedence_associativity
    [of "''1''" "''2''" "''3''" "NumExpr 1" "NumExpr 2" "NumExpr 3"]
  by (simp add: parse_operands_123)

subsection \<open>What is left over is the end of the input\<close>

lemma skip_whitespace_suffix: "suffix (skip_whitespace s) s"
  by (induction s) (auto simp: suffix_Cons)

lemma consume_suffix: "consume s c = Inr r \<Longrightarrow> suffix r s"
  by (auto simp: consume_def get_def suffix_Cons split: list.splits if_splits)

lemma get_suffix: "get s = (c, r) \<Longrightarrow> suffix r s"
  by (auto simp: get_def suffix_Cons split: list.splits)

lemma consume_word_suffix: "consume_word s w = Inr r \<Longrightarrow> suffix r s"
proof (induction s w rule: consume_word.induct)
  case (1 s)
  then show ?case by simp
next
  case (2 s c cs)
  obtain g r' where g: "get s = (g, r')" by (cases "get s")
  with 2 show ?case
    by (auto split: if_splits dest: get_suffix intro: suffix_order.trans)
qed

lemma parse_num_loop_suffix: "parse_num_loop n s = (m, r) \<Longrightarrow> suffix r s"
  by (induction n s rule: parse_num_loop.induct) (auto simp: suffix_Cons split: if_splits)

lemma parse_num_suffix: "parse_num s = Inr (e, r) \<Longrightarrow> suffix r s"
  by (auto simp: parse_num_def split: if_splits sum.splits prod.splits
      dest!: parse_num_loop_suffix consume_suffix intro: suffix_order.trans)

lemma parse_var_loop_suffix: "parse_var_loop str s = (v, r) \<Longrightarrow> suffix r s"
  by (induction str s rule: parse_var_loop.induct) (auto simp: suffix_Cons split: if_splits)

lemma parse_var_suffix: "parse_var s = Inr (e, r) \<Longrightarrow> suffix r s"
  by (auto simp: parse_var_def split: prod.splits dest!: parse_var_loop_suffix)

lemma parse_suffix:
  "parse_expr sa = Inr (ea, ra) \<Longrightarrow> suffix ra sa"
  "parse_addend sb = Inr (eb, rb) \<Longrightarrow> suffix rb sb"
  "parse_multicand sc = Inr (ec, rc) \<Longrightarrow> suffix rc sc"
  "parse_let sd = Inr (ed, rd) \<Longrightarrow> suffix rd sd"
proof (induction sa and sb and sc and sd arbitrary: ea ra and eb rb and ec rc and ed rd
       rule: parse_expr_parse_addend_parse_multicand_parse_let.induct)
  case (1 s)
  note eq = "1.prems" [unfolded parse_expr.simps [of s]]
  then obtain e s1 where a: "parse_addend s = Inr (e, s1)"
    by (cases "parse_addend s") auto
  have l1: "suffix (skip_whitespace s1) s"
    using "1.IH"(1) [OF a] skip_whitespace_suffix [of s1] by (rule suffix_order.trans [rotated])
  show ?case
  proof (cases "peek (skip_whitespace s1) = Some CHR ''+''")
    case False
    with eq a have "ra = skip_whitespace s1" by (simp add: Let_def)
    with l1 show ?thesis by simp
  next
    case True
    with eq a obtain s3 where c: "consume (skip_whitespace s1) (Some CHR ''+'') = Inr s3"
      by (cases "consume (skip_whitespace s1) (Some CHR ''+'')") (auto simp: Let_def)
    with eq a True obtain rhs where p: "parse_expr s3 = Inr (rhs, ra)"
      by (cases "parse_expr s3") (auto simp: Let_def)
    have "suffix ra s3"
      using "1.IH"(2) [OF a refl refl True c p] .
    with consume_suffix [OF c] l1 show ?thesis
      by (blast intro: suffix_order.trans)
  qed
next
  case (2 s)
  note eq = "2.prems" [unfolded parse_addend.simps [of s]]
  then obtain e s1 where a: "parse_multicand s = Inr (e, s1)"
    by (cases "parse_multicand s") auto
  have l1: "suffix (skip_whitespace s1) s"
    using "2.IH"(1) [OF a] skip_whitespace_suffix [of s1] by (rule suffix_order.trans [rotated])
  show ?case
  proof (cases "peek (skip_whitespace s1) = Some CHR ''*''")
    case False
    with eq a have "rb = skip_whitespace s1" by (simp add: Let_def)
    with l1 show ?thesis by simp
  next
    case True
    with eq a obtain s3 where c: "consume (skip_whitespace s1) (Some CHR ''*'') = Inr s3"
      by (cases "consume (skip_whitespace s1) (Some CHR ''*'')") (auto simp: Let_def)
    with eq a True obtain rhs where p: "parse_addend (skip_whitespace s3) = Inr (rhs, rb)"
      by (cases "parse_addend (skip_whitespace s3)") (auto simp: Let_def)
    have "suffix rb (skip_whitespace s3)"
      using "2.IH"(2) [OF a refl refl True c p] .
    with consume_suffix [OF c] l1 skip_whitespace_suffix [of s3] show ?thesis
      by (blast intro: suffix_order.trans)
  qed
next
  case (3 s)
  let ?s1 = "skip_whitespace s"
  let ?c = "peek ?s1"
  have l0: "suffix ?s1 s" by (rule skip_whitespace_suffix)
  note eq = "3.prems" [unfolded parse_multicand.simps [of s] Let_def]
  show ?case
  proof (cases "?c = Some CHR ''-'' \<or> isdigit ?c")
    case True
    with eq have "parse_num ?s1 = Inr (ec, rc)" by simp
    from parse_num_suffix [OF this] l0 show ?thesis by (rule suffix_order.trans)
  next
    case nonum: False
    show ?thesis
    proof (cases "?c = Some CHR ''(''")
      case True
      with eq nonum obtain s2 where c: "consume ?s1 (Some CHR ''('') = Inr s2"
        by (cases "consume ?s1 (Some CHR ''('')") auto
      with eq nonum True obtain e s3 where p: "parse_expr s2 = Inr (e, s3)"
        by (cases "parse_expr s2") auto
      have l3: "suffix s3 s2"
        using "3.IH"(1) [OF refl refl nonum True c p] .
      from eq nonum True c p have "rc = snd (get (skip_whitespace s3))"
        by (auto split: prod.splits if_splits)
      then have "suffix rc (skip_whitespace s3)"
        using get_suffix [of "skip_whitespace s3" "fst (get (skip_whitespace s3))" rc] by simp
      with l3 consume_suffix [OF c] l0 skip_whitespace_suffix [of s3] show ?thesis
        by (blast intro: suffix_order.trans)
    next
      case noparen: False
      show ?thesis
      proof (cases "isalpha ?c")
        case True
        with eq nonum noparen have "parse_var ?s1 = Inr (ec, rc)" by simp
        from parse_var_suffix [OF this] l0 show ?thesis by (rule suffix_order.trans)
      next
        case noalpha: False
        show ?thesis
        proof (cases "?c = Some CHR ''_''")
          case True
          with eq nonum noparen noalpha have p: "parse_let ?s1 = Inr (ec, rc)" by simp
          have "suffix rc ?s1"
            using "3.IH"(2) [OF refl refl nonum noparen noalpha True p] .
          with l0 show ?thesis by (blast intro: suffix_order.trans)
        next
          case False
          with eq nonum noparen noalpha show ?thesis
            by (auto split: sum.splits)
        qed
      qed
    qed
  qed
next
  case (4 s)
  note eq = "4.prems" [unfolded parse_let.simps [of s]]
  then obtain s1 where a1: "consume_word (skip_whitespace s) ''_let'' = Inr s1"
    by (cases "consume_word (skip_whitespace s) ''_let''") auto
  with eq obtain e s2 where a2: "parse_var (skip_whitespace s1) = Inr (e, s2)"
    by (cases "parse_var (skip_whitespace s1)") auto
  with eq a1 obtain s3 where a3: "consume (skip_whitespace s2) (Some CHR ''='') = Inr s3"
    by (cases "consume (skip_whitespace s2) (Some CHR ''='')") (auto simp: Let_def)
  with eq a1 a2 obtain rhs s4 where a4: "parse_expr (skip_whitespace s3) = Inr (rhs, s4)"
    by (cases "parse_expr (skip_whitespace s3)") (auto simp: Let_def)
  with eq a1 a2 a3 obtain s5 where a5: "consume_word (skip_whitespace s4) ''_in'' = Inr s5"
    by (cases "consume_word (skip_whitespace s4) ''_in''") (auto simp: Let_def)
  with eq a1 a2 a3 a4 obtain body where a6: "parse_expr (skip_whitespace s5) = Inr (body, rd)"
    by (cases "parse_expr (skip_whitespace s5)") (auto simp: Let_def)
  have l4: "suffix s4 (skip_whitespace s3)"
    using "4.IH"(1) [OF a1 a2 refl refl a3 a4] .
  have l6: "suffix rd (skip_whitespace s5)"
    using "4.IH"(2) [OF a1 a2 refl refl a3 a4 refl a5 a6] .
  have "suffix rd s5" using l6 skip_whitespace_suffix by (rule suffix_order.trans)
  also have "suffix s5 s4"
    using consume_word_suffix [OF a5] skip_whitespace_suffix by (rule suffix_order.trans)
  also have "suffix s4 s3" using l4 skip_whitespace_suffix by (rule suffix_order.trans)
  also have "suffix s3 s2"
    using consume_suffix [OF a3] skip_whitespace_suffix by (rule suffix_order.trans)
  also have "suffix s2 s1"
    using parse_var_suffix [OF a2] skip_whitespace_suffix by (rule suffix_order.trans)
  also have "suffix s1 s"
    using consume_word_suffix [OF a1] skip_whitespace_suffix by (rule suffix_order.trans)
  finally show ?case .
qed

subsection \<open>The whole input\<close>

lemma parse_str_malformed:
  "parse_str ''1+'' = Inl (ParseError ''invalid input'')"
  "parse_str ''(1+2'' = Inl (ParseError ''missing close parenthesis'')"
  by code_simp+

text \<open>
  Claim C7. \<open>parse_str\<close> reads one expression with \<open>parse_expr\<close>. When a character
  that is not white space is left after it, the result is the error
  \<open>invalid input\<close>; when the expression is malformed, the result is the error that
  \<open>parse_expr\<close> raised; and an expression is returned only when the input is a text
  that \<open>parse_expr\<close> read as that expression, followed by nothing but white space.
  The texts \<open>1+\<close> and \<open>(1+2\<close> are errors.
\<close>

theorem parse_whole_input:
  "(parse_expr s = Inr (e, r) \<and> (\<exists>c\<in>set r. \<not> isspace (Some c)) \<longrightarrow>
      parse_str s = Inl (ParseError ''invalid input''))
   \<and> (parse_expr s = Inl err \<longrightarrow> parse_str s = Inl err)
   \<and> (parse_str s = Inr e' \<longrightarrow>
        (\<exists>p r'. s = p @ r' \<and> parse_expr s = Inr (e', r')
           \<and> (\<forall>c\<in>set r'. isspace (Some c))))
   \<and> parse_str ''1+'' = Inl (ParseError ''invalid input'')
   \<and> parse_str ''(1+2'' = Inl (ParseError ''missing close parenthesis'')"
proof (intro conjI impI)
  assume "parse_str s = Inr e'"
  then obtain r' where r: "parse_expr s = Inr (e', r')" and w: "skip_whitespace r' = []"
    by (auto simp: parse_str_def parse_def split: sum.splits prod.splits if_splits)
  from parse_suffix(1) [OF r] obtain p where "s = p @ r'"
    by (auto simp: suffix_def)
  with r w show "\<exists>p r'. s = p @ r' \<and> parse_expr s = Inr (e', r')
      \<and> (\<forall>c\<in>set r'. isspace (Some c))"
    by (auto simp: skip_whitespace_Nil_iff)
qed (auto simp: parse_str_def parse_def skip_whitespace_Nil_iff
    parse_str_malformed [unfolded parse_str_def parse_def])

lemma parse_whole_input_examples:
  "parse_expr ''1 x'' = Inr (NumExpr 1, ''x'')"
  "parse_expr ''1+'' = Inl (ParseError ''invalid input'')"
  "parse_str ''1 '' = Inr (NumExpr 1)"
  "parse_expr ''1 '' = Inr (NumExpr 1, [])"
  by code_simp+

theorem parse_whole_input_witness:
  "parse_expr ''1 x'' = Inr (NumExpr 1, ''x'') \<and> (\<exists>c\<in>set ''x''. \<not> isspace (Some c))
   \<and> parse_str ''1 x'' = Inl (ParseError ''invalid input'')
   \<and> parse_expr ''1+'' = Inl (ParseError ''invalid input'')
   \<and> parse_str ''1+'' = Inl (ParseError ''invalid input'')
   \<and> parse_str ''1 '' = Inr (NumExpr 1)
   \<and> parse_expr ''1 '' = Inr (NumExpr 1, [])"
proof -
  have sp: "\<exists>c\<in>set ''x''. \<not> isspace (Some c)"
    by (simp add: isspace_def)
  from parse_whole_input [of "''1 x''" "NumExpr 1" "''x''"] parse_whole_input_examples(1) sp
  have "parse_str ''1 x'' = Inl (ParseError ''invalid input'')"
    by blast
  with sp show ?thesis
    by (simp add: parse_whole_input_examples parse_str_malformed)
qed

subsection \<open>Number literals\<close>

lemma parse_num_loop_foldl:
  "(\<forall>c\<in>set ds. isdigit (Some c)) \<Longrightarrow> \<not> isdigit (peek rest) \<Longrightarrow>
   parse_num_loop n (ds @ rest) =
     (foldl (\<lambda>n c. n * 10 + (of_nat (of_char c) - 48)) n ds, rest)"
proof (induction ds arbitrary: n)
  case Nil
  then show ?case by (cases rest) (auto simp: peek_def)
next
  case (Cons d ds)
  then show ?case by simp
qed

lemma foldl_digits_word:
  "(\<forall>c\<in>set ds. isdigit (Some c)) \<Longrightarrow>
   foldl (\<lambda>n c. n * 10 + (of_nat (of_char c) - 48)) (of_nat m :: cint) ds =
     of_nat (foldl (\<lambda>n c. 10 * n + (of_char c - 48)) m ds)"
proof (induction ds arbitrary: m)
  case Nil
  then show ?case by simp
next
  case (Cons d ds)
  from Cons.prems have d: "48 \<le> (of_char d :: nat)" by (simp add: isdigit_def)
  have "(of_nat m :: cint) * 10 + (of_nat (of_char d) - 48) = of_nat (10 * m + (of_char d - 48))"
    using d by (simp add: of_nat_diff)
  then have "foldl (\<lambda>n c. n * 10 + (of_nat (of_char c) - 48)) (of_nat m :: cint) (d # ds) =
      foldl (\<lambda>n c. n * 10 + (of_nat (of_char c) - 48)) (of_nat (10 * m + (of_char d - 48))) ds"
    by (simp only: foldl.simps)
  also have "\<dots> = of_nat (foldl (\<lambda>n c. 10 * n + (of_char c - 48)) (10 * m + (of_char d - 48)) ds)"
    using Cons.prems by (intro Cons.IH) simp
  finally show ?case by simp
qed

lemma parse_num_loop_digits:
  "(\<forall>c\<in>set ds. isdigit (Some c)) \<Longrightarrow> \<not> isdigit (peek rest) \<Longrightarrow>
   parse_num_loop 0 (ds @ rest) = (of_nat (decimal_value ds), rest)"
  using parse_num_loop_foldl [of ds rest 0] foldl_digits_word [of ds 0]
  by (simp add: decimal_value_def)


lemma sint_of_nat_small:
  assumes "m < 2 ^ 31"
  shows "sint (of_nat m :: cint) = int m"
proof -
  have "sint (of_nat m :: cint) = signed_take_bit 31 (int m)"
    by (simp add: signed_of_nat)
  also have "\<dots> = int m"
    using assms by (intro signed_take_bit_int_eq_self) simp_all
  finally show ?thesis .
qed

lemma sint_neg_of_nat_small:
  assumes "m < 2 ^ 31"
  shows "sint (- of_nat m :: cint) = - int m"
proof -
  have "sint (- of_nat m :: cint) = signed_take_bit 31 (- sint (of_nat m :: cint))"
    by (simp add: sint_word_minus)
  also have "\<dots> = signed_take_bit 31 (- int m)"
    by (simp only: sint_of_nat_small [OF assms])
  also have "\<dots> = - int m"
    using assms by (intro signed_take_bit_int_eq_self) simp_all
  finally show ?thesis .
qed

lemma parse_num_positive:
  assumes "ds \<noteq> []" "\<forall>c\<in>set ds. isdigit (Some c)" "\<not> isdigit (peek rest)"
  shows "parse_num (ds @ rest) = Inr (NumExpr (of_nat (decimal_value ds)), rest)"
proof -
  from assms(1) obtain d ds' where ds: "ds = d # ds'" by (cases ds) auto
  with assms(2) have "isdigit (Some d)" by simp
  then have "d \<noteq> CHR ''-''" by (auto simp: isdigit_def)
  then have "peek (ds @ rest) \<noteq> Some CHR ''-''" by (simp add: ds peek_def)
  then show ?thesis
    by (simp add: parse_num_def parse_num_loop_digits [OF assms(2,3)])
qed

lemma parse_num_negative:
  assumes "ds \<noteq> []" "\<forall>c\<in>set ds. isdigit (Some c)" "\<not> isdigit (peek rest)"
  shows "parse_num (CHR ''-'' # ds @ rest) = Inr (NumExpr (- of_nat (decimal_value ds)), rest)"
proof -
  from assms(1) obtain d ds' where ds: "ds = d # ds'" by (cases ds) auto
  with assms(2) have "isdigit (peek (ds @ rest))" by (simp add: peek_def)
  then show ?thesis
    by (simp add: parse_num_def peek_def consume_def get_def parse_num_loop_digits [OF assms(2,3)])
qed

lemma parse_num_lone_minus:
  "\<not> isdigit (peek rest) \<Longrightarrow> parse_num (CHR ''-'' # rest) = Inl (ParseError ''not a num'')"
  by (simp add: parse_num_def peek_def consume_def get_def)

lemma parse_str_lone_minus:
  assumes "skip_whitespace s = CHR ''-'' # rest" "\<not> isdigit (peek rest)"
  shows "parse_str s = Inl (ParseError ''not a num'')"
proof -
  have "parse_multicand s = Inl (ParseError ''not a num'')"
    using assms by (simp add: parse_multicand.simps [of s] peek_def parse_num_lone_minus)
  then have "parse_addend s = Inl (ParseError ''not a num'')"
    by (simp add: parse_addend.simps [of s])
  then have "parse_expr s = Inl (ParseError ''not a num'')"
    by (simp add: parse_expr.simps [of s])
  then show ?thesis by (simp add: parse_str_def parse_def)
qed

lemma parse_num_overflow:
  "parse_num ''2147483648'' = Inr (NumExpr 2147483648, [])"
  by code_simp

lemma decimal_value_overflow: "decimal_value ''2147483648'' = 2147483648"
  by (simp add: decimal_value_def)

text \<open>
  Claim C9, as stated: the literal \<open>2147483648\<close> is well formed, and \<^verbatim>\<open>parse_num\<close>
  returns a number whose value is not the decimal value of the digits: the value
  does not fit the 32 bits of \<^verbatim>\<open>int\<close>.
\<close>

theorem parse_num_overflow_counterexample:
  "parse_num ''2147483648'' = Inr (NumExpr 2147483648, [])
   \<and> sint (2147483648 :: cint) \<noteq> int (decimal_value ''2147483648'')"
  by (simp add: parse_num_overflow decimal_value_overflow)

text \<open>
  Claim C9, amended. An input whose first character after white space is a minus sign
  that no digit follows is the error \<open>not a num\<close>. A literal made of at least one
  digit, with or without a leading minus sign, whose digits denote a value below
  \<open>2 ^ 31\<close> and which is followed by something that is not a digit, is read by
  \<^verbatim>\<open>parse_num\<close> in full and yields the number with exactly that signed value.
\<close>

theorem parse_num_literal:
  "(skip_whitespace s = CHR ''-'' # rest \<and> \<not> isdigit (peek rest) \<longrightarrow>
      parse_str s = Inl (ParseError ''not a num''))
   \<and> (ds \<noteq> [] \<and> (\<forall>c\<in>set ds. isdigit (Some c)) \<and> \<not> isdigit (peek rest')
        \<and> decimal_value ds < 2 ^ 31 \<longrightarrow>
      parse_num (ds @ rest') = Inr (NumExpr (of_nat (decimal_value ds)), rest')
      \<and> sint (of_nat (decimal_value ds) :: cint) = int (decimal_value ds)
      \<and> parse_num (CHR ''-'' # ds @ rest') = Inr (NumExpr (- of_nat (decimal_value ds)), rest')
      \<and> sint (- of_nat (decimal_value ds) :: cint) = - int (decimal_value ds))"
  using parse_str_lone_minus [of s rest] parse_num_positive [of ds rest']
    parse_num_negative [of ds rest'] sint_of_nat_small [of "decimal_value ds"]
    sint_neg_of_nat_small [of "decimal_value ds"]
  by blast

lemma decimal_value_42: "decimal_value ''42'' = 42"
  by (simp add: decimal_value_def)

theorem parse_num_literal_witness:
  "skip_whitespace '' - 1'' = CHR ''-'' # '' 1'' \<and> \<not> isdigit (peek '' 1'')
   \<and> parse_str '' - 1'' = Inl (ParseError ''not a num'')
   \<and> ''42'' \<noteq> [] \<and> \<not> isdigit (peek ''+1'') \<and> decimal_value ''42'' < 2 ^ 31
   \<and> parse_num ''42+1'' = Inr (NumExpr 42, ''+1'')
   \<and> sint (42 :: cint) = 42
   \<and> parse_num ''-42+1'' = Inr (NumExpr (- 42), ''+1'')
   \<and> sint (- 42 :: cint) = - 42"
proof -
  have h1: "skip_whitespace '' - 1'' = CHR ''-'' # '' 1''" "\<not> isdigit (peek '' 1'')"
    by (simp_all add: isspace_def isdigit_def peek_def)
  have h2: "''42'' \<noteq> []" "\<forall>c\<in>set ''42''. isdigit (Some c)" "\<not> isdigit (peek ''+1'')"
    "decimal_value ''42'' < 2 ^ 31"
    by (simp_all add: isdigit_def peek_def decimal_value_42)
  from parse_num_literal [where s = "'' - 1''" and rest = "'' 1''" and ds = "''42''"
      and rest' = "''+1''"] h1 h2
  have "parse_str '' - 1'' = Inl (ParseError ''not a num'')
    \<and> parse_num (''42'' @ ''+1'') = Inr (NumExpr (of_nat (decimal_value ''42'')), ''+1'')
    \<and> parse_num (CHR ''-'' # ''42'' @ ''+1'') =
        Inr (NumExpr (- of_nat (decimal_value ''42'')), ''+1'')"
    by blast
  with h1 h2 show ?thesis by (simp add: decimal_value_42)
qed

subsection \<open>Reading back the canonical rendering\<close>

lemma equals_iff: "equals a b \<longleftrightarrow> a = b"
  by (induction a arbitrary: b) (auto split: expr.splits)

lemma of_char_digit: "k < 10 \<Longrightarrow> (of_char (char_of (48 + k)) :: nat) = 48 + k"
  by simp

lemma digits_of_nat_digits: "\<forall>c\<in>set (digits_of_nat n). isdigit (Some c)"
proof (induction n rule: digits_of_nat.induct)
  case (1 n)
  show ?case
  proof (cases "n < 10")
    case True
    then show ?thesis by (subst digits_of_nat.simps) (simp add: isdigit_def)
  next
    case False
    have "n mod 10 < 10" by simp
    then have "isdigit (Some (char_of (48 + n mod 10)))"
      by (simp add: isdigit_def)
    with False 1 show ?thesis by (subst digits_of_nat.simps) simp
  qed
qed

lemma digits_of_nat_nonempty: "digits_of_nat n \<noteq> []"
  by (subst digits_of_nat.simps) simp

lemma decimal_value_snoc:
  "decimal_value (ds @ [c]) = 10 * decimal_value ds + (of_char c - 48)"
  by (simp add: decimal_value_def)

lemma decimal_value_digits_of_nat: "decimal_value (digits_of_nat n) = n"
proof (induction n rule: digits_of_nat.induct)
  case (1 n)
  show ?case
  proof (cases "n < 10")
    case True
    then show ?thesis by (subst digits_of_nat.simps) (simp add: decimal_value_def)
  next
    case False
    have "n mod 10 < 10" by simp
    then have "(of_char (char_of (48 + n mod 10)) :: nat) - 48 = n mod 10"
      by simp
    with False 1 show ?thesis
      by (subst digits_of_nat.simps) (simp add: decimal_value_snoc)
  qed
qed

lemma word_of_nat_nat_sint:
  assumes "0 \<le> sint (v :: cint)"
  shows "of_nat (nat (sint v)) = v"
proof -
  have "(of_nat (nat (sint v)) :: cint) = of_int (sint v)"
    by (rule of_nat_nat [OF assms])
  then show ?thesis by simp
qed

lemma word_neg_of_nat_nat_sint:
  assumes "sint (v :: cint) < 0"
  shows "- of_nat (nat (- sint v)) = v"
proof -
  from assms have "0 \<le> - sint v" by simp
  then have "(of_nat (nat (- sint v)) :: cint) = of_int (- sint v)"
    by (rule of_nat_nat)
  also have "\<dots> = - of_int (sint v)" by (rule of_int_minus)
  also have "\<dots> = - v" by simp
  finally show ?thesis by simp
qed

lemma parse_num_std_to_string:
  assumes "stops rest"
  shows "parse_num (std_to_string v @ rest) = Inr (NumExpr v, rest)"
proof (cases "sint v < 0")
  case True
  have "parse_num (CHR ''-'' # digits_of_nat (nat (- sint v)) @ rest) =
      Inr (NumExpr (- of_nat (decimal_value (digits_of_nat (nat (- sint v))))), rest)"
    using assms by (intro parse_num_negative digits_of_nat_nonempty digits_of_nat_digits)
      (simp add: stops_def)
  with True show ?thesis
    by (simp add: std_to_string_def decimal_value_digits_of_nat word_neg_of_nat_nat_sint)
next
  case False
  have "parse_num (digits_of_nat (nat (sint v)) @ rest) =
      Inr (NumExpr (of_nat (decimal_value (digits_of_nat (nat (sint v))))), rest)"
    using assms by (intro parse_num_positive digits_of_nat_nonempty digits_of_nat_digits)
      (simp add: stops_def)
  with False show ?thesis
    by (simp add: std_to_string_def decimal_value_digits_of_nat word_of_nat_nat_sint)
qed


lemma parse_var_loop_alphabetic:
  "alphabetic x \<Longrightarrow> \<not> isalpha (peek rest) \<Longrightarrow>
   parse_var_loop acc (x @ rest) = (acc @ x, rest)"
proof (induction x arbitrary: acc)
  case Nil
  then show ?case by (cases rest) (auto simp: peek_def)
next
  case (Cons c x)
  then show ?case by (simp add: alphabetic_def)
qed

lemma parse_var_alphabetic:
  "alphabetic x \<Longrightarrow> \<not> isalpha (peek rest) \<Longrightarrow>
   parse_var (x @ rest) = Inr (VarExpr x, rest)"
  by (simp add: parse_var_def parse_var_loop_alphabetic)

lemma isdigit_not:
  assumes "isdigit (Some c)"
  shows "\<not> isspace (Some c)" "c \<noteq> CHR ''-''"
  using assms by (auto simp: isdigit_def isspace_def)

lemma isalpha_not:
  assumes "isalpha (Some c)"
  shows "\<not> isspace (Some c)" "\<not> isdigit (Some c)" "c \<noteq> CHR ''-''" "c \<noteq> CHR ''(''"
  using assms by (auto simp: isalpha_def isspace_def isdigit_def)

lemma parse_multicand_num:
  assumes "c = CHR ''-'' \<or> isdigit (Some c)"
  shows "parse_multicand (c # s) = parse_num (c # s)"
proof -
  from assms have "\<not> isspace (Some c)"
    by (auto simp: isdigit_not(1)) (simp add: isspace_def)
  with assms show ?thesis
    by (auto simp: parse_multicand.simps [of "c # s"] peek_def)
qed

lemma parse_multicand_var:
  assumes "isalpha (Some c)"
  shows "parse_multicand (c # s) = parse_var (c # s)"
  using assms isalpha_not [OF assms]
  by (simp add: parse_multicand.simps [of "c # s"] peek_def)

lemma parse_multicand_let:
  "parse_multicand (CHR ''_'' # s) = parse_let (CHR ''_'' # s)"
  by (simp add: parse_multicand.simps [of "CHR ''_'' # s"] peek_def isspace_def
      isalpha_def isdigit_def)

lemma parse_let_steps:
  assumes "skip_whitespace s = ''_let'' @ s1"
    and "parse_var_loop [] (skip_whitespace s1) = (x, s2)"
    and "skip_whitespace s2 = CHR ''='' # s3"
    and "parse_expr s3 = Inr (rhs, s4)"
    and "skip_whitespace s4 = ''_in'' @ s5"
    and "parse_expr s5 = Inr (body, s6)"
  shows "parse_let s = Inr (LetExpr x rhs body, s6)"
  using assms
  by (simp add: parse_let.simps [of s] get_def parse_var_def to_string_def consume_def
      parse_expr_skip)

lemma parse_expr_of_multicand:
  assumes "parse_multicand s = Inr (e, r)"
    and "peek (skip_whitespace r) \<noteq> Some CHR ''*''"
    and "peek (skip_whitespace r) \<noteq> Some CHR ''+''"
  shows "parse_expr s = Inr (e, skip_whitespace r)"
  using parse_expr_stop [OF parse_addend_stop [OF assms(1,2)]] assms(3) by simp

lemma std_to_string_Cons:
  "\<exists>c s. std_to_string v = c # s \<and> (c = CHR ''-'' \<or> isdigit (Some c))"
proof (cases "sint v < 0")
  case True
  then show ?thesis by (simp add: std_to_string_def)
next
  case False
  obtain c s where cs: "digits_of_nat (nat (sint v)) = c # s"
    using digits_of_nat_nonempty [of "nat (sint v)"] by (cases "digits_of_nat (nat (sint v))") auto
  with digits_of_nat_digits [of "nat (sint v)"] have "isdigit (Some c)" by simp
  with False cs show ?thesis by (simp add: std_to_string_def)
qed

lemma stops_simps [simp]:
  "stops (CHR ''+'' # s)" "stops (CHR ''*'' # s)" "stops (CHR '')'' # s)" "stops (CHR '' '' # s)"
  "stops (CHR 0x0A # s)" "stops []"
  by (simp_all add: stops_def peek_def isdigit_def isalpha_def)

lemma parse_expr_space: "isspace (Some c) \<Longrightarrow> parse_expr (c # s) = parse_expr s"
  using parse_expr_skip [of "c # s"] parse_expr_skip [of s] by simp

lemma parse_addend_space: "isspace (Some c) \<Longrightarrow> parse_addend (c # s) = parse_addend s"
  using parse_addend_skip [of "c # s"] parse_addend_skip [of s] by simp

lemma skip_whitespace_alphabetic:
  "alphabetic x \<Longrightarrow> skip_whitespace (x @ CHR ''='' # s) = x @ CHR ''='' # s"
  by (cases x) (simp_all add: alphabetic_def isalpha_not(1), simp add: isspace_def)

lemma parse_rendering:
  "parseable e \<Longrightarrow> stops rest \<Longrightarrow> parse_multicand (rendering e @ rest) = Inr (e, rest)"
proof (induction e arbitrary: rest)
  case (NumExpr v)
  obtain c s where cs: "std_to_string v = c # s" "c = CHR ''-'' \<or> isdigit (Some c)"
    using std_to_string_Cons by blast
  then have "parse_multicand (std_to_string v @ rest) = parse_num (std_to_string v @ rest)"
    by (simp add: parse_multicand_num)
  with NumExpr.prems show ?case by (simp add: parse_num_std_to_string)
next
  case (VarExpr x)
  then obtain c x' where x: "x = c # x'" "isalpha (Some c)"
    by (cases x) (auto simp: alphabetic_def)
  then have "parse_multicand (x @ rest) = parse_var (x @ rest)"
    by (simp add: parse_multicand_var)
  with VarExpr.prems show ?case by (simp add: parse_var_alphabetic stops_def)
next
  case (AddExpr l r)
  have r: "parse_expr (rendering r @ CHR '')'' # rest) = Inr (r, CHR '')'' # rest)"
    using parse_expr_of_multicand [OF AddExpr.IH(2) [of "CHR '')'' # rest"]] AddExpr.prems
    by (simp add: peek_def isspace_def)
  have l: "parse_addend (rendering l @ CHR ''+'' # rendering r @ CHR '')'' # rest) =
      Inr (l, CHR ''+'' # rendering r @ CHR '')'' # rest)"
    using parse_addend_stop [OF AddExpr.IH(1) [of "CHR ''+'' # rendering r @ CHR '')'' # rest"]]
      AddExpr.prems
    by (simp add: peek_def isspace_def)
  have "parse_expr (rendering l @ CHR ''+'' # rendering r @ CHR '')'' # rest) =
      Inr (AddExpr l r, CHR '')'' # rest)"
    using parse_expr_add [OF l _ r] by (simp add: isspace_def)
  from parse_multicand_paren [OF _ this, of "rendering (AddExpr l r) @ rest" rest]
  show ?case by (simp add: isspace_def)
next
  case (MultExpr l r)
  have r: "parse_addend (rendering r @ CHR '')'' # rest) = Inr (r, CHR '')'' # rest)"
    using parse_addend_stop [OF MultExpr.IH(2) [of "CHR '')'' # rest"]] MultExpr.prems
    by (simp add: peek_def isspace_def)
  have "parse_addend (rendering l @ CHR ''*'' # rendering r @ CHR '')'' # rest) =
      Inr (MultExpr l r, CHR '')'' # rest)"
    using parse_addend_mult [OF MultExpr.IH(1) [of "CHR ''*'' # rendering r @ CHR '')'' # rest"] _ r]
      MultExpr.prems
    by (simp add: isspace_def)
  from parse_expr_stop [OF this]
  have "parse_expr (rendering l @ CHR ''*'' # rendering r @ CHR '')'' # rest) =
      Inr (MultExpr l r, CHR '')'' # rest)"
    by (simp add: peek_def isspace_def)
  from parse_multicand_paren [OF _ this, of "rendering (MultExpr l r) @ rest" rest]
  show ?case by (simp add: isspace_def)
next
  case (LetExpr x r b)
  let ?tail = "CHR '')'' # rest"
  let ?after_rhs = "'' _in '' @ rendering b @ ?tail"
  have b: "parse_expr (rendering b @ ?tail) = Inr (b, ?tail)"
    using parse_expr_of_multicand [OF LetExpr.IH(2) [of ?tail]] LetExpr.prems
    by (simp add: peek_def isspace_def)
  have r: "parse_expr (rendering r @ ?after_rhs) = Inr (r, ''_in '' @ rendering b @ ?tail)"
    using parse_expr_of_multicand [OF LetExpr.IH(1) [of ?after_rhs]] LetExpr.prems
    by (simp add: peek_def isspace_def)
  have v: "parse_var_loop [] (x @ CHR ''='' # rendering r @ ?after_rhs) =
      (x, CHR ''='' # rendering r @ ?after_rhs)"
    using parse_var_loop_alphabetic [of x "CHR ''='' # rendering r @ ?after_rhs" "[]"]
      LetExpr.prems
    by (simp add: peek_def isalpha_def)
  have "parse_let (''_let '' @ x @ CHR ''='' # rendering r @ ?after_rhs) =
      Inr (LetExpr x r b, ?tail)"
  proof (rule parse_let_steps)
    show "skip_whitespace (''_let '' @ x @ CHR ''='' # rendering r @ ?after_rhs) =
        ''_let'' @ ('' '' @ x @ CHR ''='' # rendering r @ ?after_rhs)"
      by (simp add: isspace_def)
    show "parse_var_loop [] (skip_whitespace ('' '' @ x @ CHR ''='' # rendering r @ ?after_rhs)) =
        (x, CHR ''='' # rendering r @ ?after_rhs)"
      using v skip_whitespace_alphabetic [of x "rendering r @ ?after_rhs"] LetExpr.prems
      by (simp add: isspace_def)
    show "skip_whitespace (CHR ''='' # rendering r @ ?after_rhs) =
        CHR ''='' # rendering r @ ?after_rhs"
      by (simp add: isspace_def)
    show "parse_expr (rendering r @ ?after_rhs) = Inr (r, ''_in '' @ rendering b @ ?tail)"
      by (rule r)
    show "skip_whitespace (''_in '' @ rendering b @ ?tail) = ''_in'' @ ('' '' @ rendering b @ ?tail)"
      by (simp add: isspace_def)
    show "parse_expr ('' '' @ rendering b @ ?tail) = Inr (b, ?tail)"
      using b by (simp add: parse_expr_space isspace_def)
  qed
  then have "parse_multicand (''_let '' @ x @ CHR ''='' # rendering r @ ?after_rhs) =
      Inr (LetExpr x r b, ?tail)"
    by (simp add: parse_multicand_let)
  from parse_expr_of_multicand [OF this]
  have "parse_expr (''_let '' @ x @ CHR ''='' # rendering r @ ?after_rhs) =
      Inr (LetExpr x r b, ?tail)"
    by (simp add: peek_def isspace_def)
  from parse_multicand_paren [OF _ this, of "rendering (LetExpr x r b) @ rest" rest]
  show ?case by (simp add: isspace_def)
qed simp_all


lemma parse_str_rendering:
  assumes "parseable e"
  shows "parse_str (to_string e) = Inr e"
proof -
  have "parse_multicand (rendering e @ []) = Inr (e, [])"
    using assms by (intro parse_rendering) simp_all
  from parse_expr_of_multicand [OF this] show ?thesis
    by (simp add: parse_str_def parse_def to_string_rendering peek_def)
qed

lemma parse_str_unparseable:
  "parse_str (to_string (BoolExpr True)) = Inl (ParseError ''consume mismatch'')"
  "parse_str (to_string (EqExpr (NumExpr 1) (NumExpr 2))) =
     Inl (ParseError ''missing close parenthesis'')"
  "parse_str (to_string (IfExpr (BoolExpr True) (NumExpr 1) (NumExpr 2))) =
     Inl (ParseError ''consume mismatch'')"
  by code_simp+

text \<open>
  Claim C1, as stated: the canonical renderings of a boolean, of an equality and of a
  conditional do not parse: \<^verbatim>\<open>parse_multicand\<close> has no production for them.
\<close>

theorem canonical_round_trip_counterexample:
  "parse_str (to_string (BoolExpr True)) = Inl (ParseError ''consume mismatch'')
   \<and> parse_str (to_string (EqExpr (NumExpr 1) (NumExpr 2))) =
       Inl (ParseError ''missing close parenthesis'')
   \<and> parse_str (to_string (IfExpr (BoolExpr True) (NumExpr 1) (NumExpr 2))) =
       Inl (ParseError ''consume mismatch'')"
  by (simp add: parse_str_unparseable)

text \<open>
  Claim C1, amended. For every expression that the grammar of \<^verbatim>\<open>parse.cpp\<close> can
  produce, parsing the canonical rendering succeeds, and the tree it returns is equal
  to the expression in the sense of \<^verbatim>\<open>equals\<close>.
\<close>

theorem canonical_round_trip:
  "parseable e \<Longrightarrow> \<exists>e'. parse_str (to_string e) = Inr e' \<and> equals e' e"
  by (simp add: parse_str_rendering equals_iff)

lemma parseable_example:
  "parseable (LetExpr ''x'' (NumExpr (- 5))
     (AddExpr (VarExpr ''x'') (MultExpr (NumExpr 2) (VarExpr ''y''))))"
  by (simp add: alphabetic_def isalpha_def INT_MIN_def)

lemma to_string_example:
  "to_string (LetExpr ''x'' (NumExpr (- 5))
     (AddExpr (VarExpr ''x'') (MultExpr (NumExpr 2) (VarExpr ''y'')))) =
   ''(_let x=-5 _in (x+(2*y)))''"
  by code_simp

theorem canonical_round_trip_witness:
  "parseable (LetExpr ''x'' (NumExpr (- 5))
     (AddExpr (VarExpr ''x'') (MultExpr (NumExpr 2) (VarExpr ''y''))))
   \<and> parse_str ''(_let x=-5 _in (x+(2*y)))'' =
       Inr (LetExpr ''x'' (NumExpr (- 5))
         (AddExpr (VarExpr ''x'') (MultExpr (NumExpr 2) (VarExpr ''y''))))"
  using canonical_round_trip [OF parseable_example] parseable_example
  by (simp add: to_string_example equals_iff)

subsection \<open>Reading back the pretty rendering\<close>

lemma closing_simps [simp]: "closing (CHR '')'' # s)" "closing []"
  by (simp_all add: closing_def peek_def isspace_def)

lemma closing_fits: "closing rest \<Longrightarrow> fits prec lp rest"
  by (cases prec) (auto simp: closing_def)

lemma atom_reads:
  assumes "\<And>rest. stops rest \<Longrightarrow> parse_multicand (t @ rest) = Inr (e, rest)"
  shows "reads prec lp e t"
  unfolding reads_def
proof (intro allI impI, elim conjE)
  fix rest
  assume s: "stops rest" and f: "fits prec lp rest"
  note m = assms [OF s]
  show "level prec (t @ rest) e (skip_whitespace rest)"
  proof (cases prec)
    case prec_none
    with f m show ?thesis by (simp add: parse_expr_of_multicand closing_def)
  next
    case prec_add
    with f have "peek (skip_whitespace rest) \<noteq> Some CHR ''*''"
      by (auto simp: closing_def split: if_splits)
    with prec_add m show ?thesis by (simp add: parse_addend_stop)
  next
    case prec_mult
    with m show ?thesis by simp
  qed
qed

lemma reads_expr:
  assumes "reads prec_none lp e t" "stops rest" "closing rest"
  shows "parse_expr (t @ rest) = Inr (e, skip_whitespace rest)"
  using assms by (simp add: reads_def)

lemma reads_addend:
  assumes "reads prec_add lp e t" "stops rest" "fits prec_add lp rest"
  shows "parse_addend (t @ rest) = Inr (e, skip_whitespace rest)"
  using assms unfolding reads_def by (metis level.simps(2))

lemma reads_multicand:
  assumes "reads prec_mult True e t" "stops rest"
  shows "\<exists>r'. parse_multicand (t @ rest) = Inr (e, r') \<and> skip_whitespace r' = skip_whitespace rest"
  using assms unfolding reads_def by (metis level.simps(1) fits.simps(1))

lemma isspace_chars:
  "isspace (Some CHR '' '')" "isspace (Some CHR 0x0A)"
  "\<not> isspace (Some CHR ''('')" "\<not> isspace (Some CHR '')'')"
  "\<not> isspace (Some CHR ''+'')" "\<not> isspace (Some CHR ''*'')"
  "\<not> isspace (Some CHR ''='')" "\<not> isspace (Some CHR ''_'')"
  "\<not> isspace (Some CHR ''-'')"
  by (simp_all add: isspace_def)

lemma skip_whitespace_replicate:
  "skip_whitespace (replicate n CHR '' '' @ s) = skip_whitespace s"
  by (induction n) (simp_all add: isspace_chars)

lemma parse_var_loop_pretty:
  assumes "alphabetic x"
  shows "\<exists>s2. parse_var_loop [] (skip_whitespace (CHR '' '' # x @ CHR '' '' # CHR ''='' # Y)) = (x, s2)
     \<and> skip_whitespace s2 = CHR ''='' # Y"
proof (cases x)
  case Nil
  then show ?thesis by (simp add: isspace_chars isalpha_def)
next
  case (Cons c x')
  with assms have c: "isalpha (Some c)" by (simp add: alphabetic_def)
  have "parse_var_loop [] (x @ CHR '' '' # CHR ''='' # Y) = ([] @ x, CHR '' '' # CHR ''='' # Y)"
    using assms by (intro parse_var_loop_alphabetic) (simp_all add: peek_def isalpha_def)
  with Cons c show ?thesis by (simp add: isspace_chars isalpha_not(1))
qed


lemma prec_rank_add: "(Suc 0 \<le> prec_rank prec) = (prec \<noteq> prec_none)"
  by (cases prec) simp_all

lemma prec_rank_mult: "(2 \<le> prec_rank prec) = (prec = prec_mult)"
  by (cases prec) simp_all

lemma pretty_reads:
  "parseable e \<Longrightarrow>
   \<exists>t p'. pretty_print_at e prec lp (os, sp) = (os @ t, p') \<and> reads prec lp e t"
proof (induction e arbitrary: prec lp os sp)
  case (NumExpr v)
  have "reads prec lp (NumExpr v) (std_to_string v)"
    using parse_rendering [of "NumExpr v"] NumExpr.prems by (intro atom_reads) simp
  then show ?case by simp
next
  case (VarExpr x)
  have "reads prec lp (VarExpr x) x"
    using parse_rendering [of "VarExpr x"] VarExpr.prems by (intro atom_reads) simp
  then show ?case by simp
next
  case (AddExpr l r)
  from AddExpr.prems have pl: "parseable l" and pr: "parseable r" by simp_all
  define o1 where "o1 = (if prec \<noteq> prec_none then os @ ''('' else os)"
  from AddExpr.IH(1) [OF pl, of prec_add True o1 sp]
  obtain tl p2 where L: "pretty_print_at l prec_add True (o1, sp) = (o1 @ tl, p2)"
    and Lr: "reads prec_add True l tl" by blast
  from AddExpr.IH(2) [OF pr, of prec_none lp "o1 @ tl @ '' + ''" p2]
  obtain tr p4 where R: "pretty_print_at r prec_none lp (o1 @ tl @ '' + '', p2) =
      ((o1 @ tl @ '' + '') @ tr, p4)"
    and Rr: "reads prec_none lp r tr" by blast
  have core: "parse_expr (tl @ '' + '' @ tr @ rest) = Inr (AddExpr l r, skip_whitespace rest)"
    if "stops rest" "closing rest" for rest
  proof -
    have a: "parse_addend (tl @ ('' + '' @ tr @ rest)) =
        Inr (l, skip_whitespace ('' + '' @ tr @ rest))"
      by (rule reads_addend [OF Lr]) (simp_all add: isspace_chars peek_def)
    have b: "parse_expr ('' '' @ tr @ rest) = Inr (r, skip_whitespace rest)"
      using reads_expr [OF Rr that] by (simp add: parse_expr_space isspace_chars)
    from parse_expr_add [OF a _ b] show ?thesis by (simp add: isspace_chars)
  qed
  show ?case
  proof (cases "prec = prec_none")
    case False
    have pp: "pretty_print_at (AddExpr l r) prec lp (os, sp) =
        (os @ (''('' @ tl @ '' + '' @ tr @ '')''), p4)"
      using False L R by (simp add: o1_def Let_def prec_rank_add)
    have "reads prec lp (AddExpr l r) (''('' @ tl @ '' + '' @ tr @ '')'')"
    proof (rule atom_reads)
      fix rest
      assume "stops rest"
      have "parse_expr (tl @ '' + '' @ tr @ CHR '')'' # rest) =
          Inr (AddExpr l r, skip_whitespace (CHR '')'' # rest))"
        by (rule core) simp_all
      from parse_multicand_paren [OF _ this, of "(''('' @ tl @ '' + '' @ tr @ '')'') @ rest" rest]
      show "parse_multicand ((''('' @ tl @ '' + '' @ tr @ '')'') @ rest) = Inr (AddExpr l r, rest)"
        by (simp add: isspace_chars)
    qed
    with pp show ?thesis by blast
  next
    case True
    have pp: "pretty_print_at (AddExpr l r) prec lp (os, sp) = (os @ (tl @ '' + '' @ tr), p4)"
      using True L R by (simp add: o1_def Let_def)
    have "reads prec lp (AddExpr l r) (tl @ '' + '' @ tr)"
      unfolding reads_def True using core by simp
    with pp show ?thesis by blast
  qed
next
  case (MultExpr l r)
  from MultExpr.prems have pl: "parseable l" and pr: "parseable r" by simp_all
  define o1 where "o1 = (if prec = prec_mult then os @ ''('' else os)"
  define parent where "parent = (if prec = prec_mult then False else lp)"
  from MultExpr.IH(1) [OF pl, of prec_mult True o1 sp]
  obtain tl p2 where L: "pretty_print_at l prec_mult True (o1, sp) = (o1 @ tl, p2)"
    and Lr: "reads prec_mult True l tl" by blast
  from MultExpr.IH(2) [OF pr, of prec_add parent "o1 @ tl @ '' * ''" p2]
  obtain tr p4 where R: "pretty_print_at r prec_add parent (o1 @ tl @ '' * '', p2) =
      ((o1 @ tl @ '' * '') @ tr, p4)"
    and Rr: "reads prec_add parent r tr" by blast
  have core: "parse_addend (tl @ '' * '' @ tr @ rest) = Inr (MultExpr l r, skip_whitespace rest)"
    if "stops rest" "fits prec_add parent rest" for rest
  proof -
    obtain r0 where a: "parse_multicand (tl @ ('' * '' @ tr @ rest)) = Inr (l, r0)"
      and a': "skip_whitespace r0 = skip_whitespace ('' * '' @ tr @ rest)"
      using reads_multicand [OF Lr, of "'' * '' @ tr @ rest"] by auto
    have b: "parse_addend ('' '' @ tr @ rest) = Inr (r, skip_whitespace rest)"
      using reads_addend [OF Rr that] by (simp add: parse_addend_space isspace_chars)
    from parse_addend_mult [OF a _ b] a' show ?thesis by (simp add: isspace_chars)
  qed
  show ?case
  proof (cases "prec = prec_mult")
    case True
    have pp: "pretty_print_at (MultExpr l r) prec lp (os, sp) =
        (os @ (''('' @ tl @ '' * '' @ tr @ '')''), p4)"
      using True L R by (simp add: o1_def parent_def Let_def)
    have "reads prec lp (MultExpr l r) (''('' @ tl @ '' * '' @ tr @ '')'')"
    proof (rule atom_reads)
      fix rest
      assume "stops rest"
      have "parse_addend (tl @ '' * '' @ tr @ CHR '')'' # rest) =
          Inr (MultExpr l r, skip_whitespace (CHR '')'' # rest))"
        using True by (intro core) (simp_all add: parent_def)
      from parse_expr_stop [OF this]
      have "parse_expr (tl @ '' * '' @ tr @ CHR '')'' # rest) =
          Inr (MultExpr l r, CHR '')'' # rest)"
        by (simp add: isspace_chars peek_def)
      from parse_multicand_paren [OF _ this, of "(''('' @ tl @ '' * '' @ tr @ '')'') @ rest" rest]
      show "parse_multicand ((''('' @ tl @ '' * '' @ tr @ '')'') @ rest) = Inr (MultExpr l r, rest)"
        by (simp add: isspace_chars)
    qed
    with pp show ?thesis by blast
  next
    case False
    then have par: "parent = lp" by (simp add: parent_def)
    have pp: "pretty_print_at (MultExpr l r) prec lp (os, sp) = (os @ (tl @ '' * '' @ tr), p4)"
      using False L R by (simp add: o1_def parent_def Let_def prec_rank_mult)
    have "reads prec lp (MultExpr l r) (tl @ '' * '' @ tr)"
      unfolding reads_def
    proof (intro allI impI, elim conjE)
      fix rest
      assume s: "stops rest" and f: "fits prec lp rest"
      show "level prec ((tl @ '' * '' @ tr) @ rest) (MultExpr l r) (skip_whitespace rest)"
      proof (cases prec)
        case prec_mult
        with False show ?thesis by simp
      next
        case prec_add
        with f have "fits prec_add parent rest" by (simp add: par)
        from core [OF s this] prec_add show ?thesis by simp
      next
        case prec_none
        with f have c: "closing rest" by simp
        then have "fits prec_add parent rest" by (rule closing_fits)
        from parse_expr_stop [OF core [OF s this]] c prec_none show ?thesis
          by (simp add: closing_def)
      qed
    qed
    with pp show ?thesis by blast
  qed
next
  case (LetExpr x rhs body)
  from LetExpr.prems have ax: "alphabetic x" and pr: "parseable rhs" and pb: "parseable body"
    by simp_all
  define o1 where "o1 = (if lp then os @ ''('' else os)"
  define depth where "depth = length o1 - sp"
  from LetExpr.IH(1) [OF pr, of prec_none False "o1 @ ''_let '' @ x @ '' = ''" sp]
  obtain tr p3 where R: "pretty_print_at rhs prec_none False (o1 @ ''_let '' @ x @ '' = '', sp) =
      ((o1 @ ''_let '' @ x @ '' = '') @ tr, p3)"
    and Rr: "reads prec_none False rhs tr" by blast
  define o4 where "o4 = (o1 @ ''_let '' @ x @ '' = '') @ tr @ [CHR 0x0A]"
  from LetExpr.IH(2) [OF pb, of prec_none False "o4 @ replicate depth CHR '' '' @ ''_in  ''" "length o4"]
  obtain tb p6 where B: "pretty_print_at body prec_none False
      (o4 @ replicate depth CHR '' '' @ ''_in  '', length o4) =
      ((o4 @ replicate depth CHR '' '' @ ''_in  '') @ tb, p6)"
    and Br: "reads prec_none False body tb" by blast
  define LET where "LET = ''_let '' @ x @ '' = '' @ tr @ [CHR 0x0A] @
      replicate depth CHR '' '' @ ''_in  '' @ tb"
  have pp: "pretty_print_at (LetExpr x rhs body) prec lp (os, sp) =
      (os @ (if lp then ''('' @ LET @ '')'' else LET), p6)"
    using R B by (simp add: o1_def o4_def depth_def LET_def Let_def)
  have core: "parse_multicand (LET @ rest) = Inr (LetExpr x rhs body, skip_whitespace rest)"
    if st: "stops rest" and cl: "closing rest" for rest
  proof -
    define Z where "Z = [CHR 0x0A] @ replicate depth CHR '' '' @ ''_in  '' @ tb @ rest"
    have zs: "skip_whitespace Z = ''_in  '' @ tb @ rest"
      by (simp add: Z_def isspace_chars skip_whitespace_replicate)
    have "stops Z" by (simp add: Z_def)
    moreover have "closing Z" by (simp add: closing_def zs peek_def)
    ultimately have "parse_expr (tr @ Z) = Inr (rhs, skip_whitespace Z)"
      by (rule reads_expr [OF Rr])
    then have r: "parse_expr ('' '' @ tr @ Z) = Inr (rhs, ''_in  '' @ tb @ rest)"
      by (simp add: parse_expr_space isspace_chars zs)
    have b: "parse_expr (''  '' @ tb @ rest) = Inr (body, skip_whitespace rest)"
      using reads_expr [OF Br st cl] by (simp add: parse_expr_space isspace_chars)
    obtain s2 where v: "parse_var_loop []
        (skip_whitespace (CHR '' '' # x @ CHR '' '' # CHR ''='' # '' '' @ tr @ Z)) = (x, s2)"
      and v': "skip_whitespace s2 = CHR ''='' # '' '' @ tr @ Z"
      using parse_var_loop_pretty [OF ax] by blast
    have "parse_let (LET @ rest) = Inr (LetExpr x rhs body, skip_whitespace rest)"
    proof (rule parse_let_steps [OF _ v v' r _ b])
      show "skip_whitespace (LET @ rest) =
          ''_let'' @ CHR '' '' # x @ CHR '' '' # CHR ''='' # '' '' @ tr @ Z"
        by (simp add: LET_def Z_def isspace_chars)
      show "skip_whitespace (''_in  '' @ tb @ rest) = ''_in'' @ ''  '' @ tb @ rest"
        by (simp add: isspace_chars)
    qed
    then show ?thesis by (simp add: LET_def parse_multicand_let)
  qed
  show ?case
  proof (cases lp)
    case True
    have "reads prec lp (LetExpr x rhs body) (''('' @ LET @ '')'')"
    proof (rule atom_reads)
      fix rest
      assume "stops rest"
      have "parse_multicand (LET @ CHR '')'' # rest) =
          Inr (LetExpr x rhs body, skip_whitespace (CHR '')'' # rest))"
        by (rule core) simp_all
      from parse_expr_of_multicand [OF this]
      have "parse_expr (LET @ CHR '')'' # rest) = Inr (LetExpr x rhs body, CHR '')'' # rest)"
        by (simp add: isspace_chars peek_def)
      from parse_multicand_paren [OF _ this, of "(''('' @ LET @ '')'') @ rest" rest]
      show "parse_multicand ((''('' @ LET @ '')'') @ rest) = Inr (LetExpr x rhs body, rest)"
        by (simp add: isspace_chars)
    qed
    with pp True show ?thesis by auto
  next
    case False
    have "reads prec lp (LetExpr x rhs body) LET"
      unfolding reads_def
    proof (intro allI impI, elim conjE)
      fix rest
      assume s: "stops rest" and f: "fits prec lp rest"
      from f False have c: "closing rest" by (cases prec) simp_all
      note m = core [OF s c]
      show "level prec (LET @ rest) (LetExpr x rhs body) (skip_whitespace rest)"
      proof (cases prec)
        case prec_none
        from parse_expr_of_multicand [OF m] c prec_none show ?thesis
          by (simp add: closing_def)
      next
        case prec_add
        from parse_addend_stop [OF m] c prec_add show ?thesis
          by (simp add: closing_def)
      next
        case prec_mult
        with m show ?thesis by simp
      qed
    qed
    with pp False show ?thesis by auto
  qed
qed simp_all

lemma parse_str_pretty:
  assumes "parseable e"
  shows "parse_str (to_pretty_string e) = Inr e"
proof -
  from pretty_reads [OF assms, of prec_none False "[]" 0]
  obtain t p' where t: "pretty_print_at e prec_none False ([], 0) = (t, p')"
    and r: "reads prec_none False e t" by auto
  from reads_expr [OF r, of "[]"] have "parse_expr t = Inr (e, [])" by simp
  with t show ?thesis
    by (simp add: parse_str_def parse_def to_pretty_string_def pretty_print_def)
qed


lemma pretty_unparseable:
  "to_pretty_string (FunExpr ''x'' (VarExpr ''x'')) = []"
  "parse_str (to_pretty_string (FunExpr ''x'' (VarExpr ''x''))) = Inl (ParseError ''invalid input'')"
  "to_pretty_string (CallExpr (VarExpr ''f'') (NumExpr 3)) = []"
  "parse_str (to_pretty_string (CallExpr (VarExpr ''f'') (NumExpr 3))) =
     Inl (ParseError ''invalid input'')"
  by code_simp+

text \<open>
  Claim C2, as stated: a function literal and a call are pretty-printed as the empty
  text, which does not parse.
\<close>

theorem pretty_round_trip_counterexample:
  "to_pretty_string (FunExpr ''x'' (VarExpr ''x'')) = []
   \<and> parse_str (to_pretty_string (FunExpr ''x'' (VarExpr ''x''))) =
       Inl (ParseError ''invalid input'')
   \<and> to_pretty_string (CallExpr (VarExpr ''f'') (NumExpr 3)) = []
   \<and> parse_str (to_pretty_string (CallExpr (VarExpr ''f'') (NumExpr 3))) =
       Inl (ParseError ''invalid input'')"
  by (intro conjI) (rule pretty_unparseable)+

text \<open>
  Claim C2, amended. For every expression that the grammar of \<^verbatim>\<open>parse.cpp\<close> can
  produce, parsing the pretty-printed rendering succeeds, and the tree it returns is
  equal to the expression in the sense of \<^verbatim>\<open>equals\<close>: the parentheses left out and
  the line breaks and indentation put in do not change what is read.
\<close>

theorem pretty_round_trip:
  "parseable e \<Longrightarrow> \<exists>e'. parse_str (to_pretty_string e) = Inr e' \<and> equals e' e"
  by (simp add: parse_str_pretty equals_iff)

lemma parseable_pretty_example:
  "parseable (AddExpr (MultExpr (NumExpr 2) (LetExpr ''x'' (NumExpr 5) (VarExpr ''x'')))
     (NumExpr 1))"
  by (simp add: alphabetic_def isalpha_def INT_MIN_def)

lemma to_pretty_string_example:
  "to_pretty_string (AddExpr (MultExpr (NumExpr 2) (LetExpr ''x'' (NumExpr 5) (VarExpr ''x'')))
     (NumExpr 1)) =
   ''2 * (_let x = 5'' @ [CHR 0x0A] @ ''     _in  x) + 1''"
  by code_simp

theorem pretty_round_trip_witness:
  "parseable (AddExpr (MultExpr (NumExpr 2) (LetExpr ''x'' (NumExpr 5) (VarExpr ''x'')))
     (NumExpr 1))
   \<and> parse_str (''2 * (_let x = 5'' @ [CHR 0x0A] @ ''     _in  x) + 1'') =
       Inr (AddExpr (MultExpr (NumExpr 2) (LetExpr ''x'' (NumExpr 5) (VarExpr ''x'')))
         (NumExpr 1))"
  using pretty_round_trip [OF parseable_pretty_example] parseable_pretty_example
  by (simp add: to_pretty_string_example equals_iff)

end
